theory Spec2Isabelle
  imports Complex_Main "HOL-Library.Multiset"
begin

section \<open>Exceptions\<close>

text \<open>
  The exceptions of \<^verbatim>\<open>atooms/simulation/__init__.py\<close> and the built-in ones its code can
  raise.  \<^verbatim>\<open>SimulationEnd\<close> and \<^verbatim>\<open>WallTimeLimit\<close> are two unrelated subclasses of
  \<^verbatim>\<open>Exception\<close>.  The message of a \<^verbatim>\<open>SimulationEnd\<close> is kept, since \<^verbatim>\<open>run\<close> logs it.
\<close>

datatype message =
    AchievedTarget string real
  | UserStopped
  | OtherMessage

datatype exn =
    SimulationEnd message
  | WallTimeLimit
  | SchedulerError
  | ParameterError
  | KeyboardInterrupt
  | ZeroDivisionError
  | AttributeError
  | ValueError
  | IndexError
  | RuntimeError
  | UnboundLocalError
  | BackendError

section \<open>Schedulers\<close>

text \<open>
  Python 2 integers are unbounded, and \<^verbatim>\<open>/\<close> on two of them is floor division, which is
  \<open>div\<close> on \<^typ>\<open>int\<close>.  An attribute that may hold \<^verbatim>\<open>None\<close> is an \<^typ>\<open>int option\<close>;
  in Python 2 the comparison \<^verbatim>\<open>None > 0\<close> is \<^verbatim>\<open>False\<close>.
\<close>

fun py_gt0 :: "int option \<Rightarrow> bool" where
  "py_gt0 None = False"
| "py_gt0 (Some i) = (0 < i)"

text \<open>\<^verbatim>\<open>sys.maxint\<close> of a 64-bit CPython 2.\<close>

definition sys_maxint :: int where
  "sys_maxint = 9223372036854775807"

datatype scheduler =
    Scheduler (interval: "int option") (calls: "int option") (target: "int option")
  | OnetimeScheduler int

text \<open>\<^verbatim>\<open>Scheduler.__init__(interval, calls=None, target=None)\<close>.\<close>

definition Scheduler_init :: "int option \<Rightarrow> int option \<Rightarrow> int option \<Rightarrow> exn + scheduler" where
  "Scheduler_init i c t =
     (if py_gt0 i then Inr (Scheduler i c t)
      else if py_gt0 c then
        (case t of
           Some tv \<Rightarrow> Inr (Scheduler (Some (max 1 (tv div the c))) c t)
         | None \<Rightarrow> Inl SchedulerError)
      else Inr (Scheduler i c t))"

text \<open>
  \<^verbatim>\<open>Scheduler.next\<close> and \<^verbatim>\<open>OnetimeScheduler.next\<close>.  The one-shot scheduler divides by its
  interval without a test, so an interval of zero raises.
\<close>

fun Scheduler_next :: "scheduler \<Rightarrow> int \<Rightarrow> exn + int" where
  "Scheduler_next (Scheduler i c t) this =
     (if py_gt0 i then Inr ((this div the i + 1) * the i) else Inr sys_maxint)"
| "Scheduler_next (OnetimeScheduler iv) this =
     (if iv = 0 then Inl ZeroDivisionError
      else if this div iv = 0 then Inr iv
      else Inr sys_maxint)"

text \<open>Repeated application of \<^verbatim>\<open>next\<close>, each result being the next current step.\<close>

fun iterate_next :: "scheduler \<Rightarrow> nat \<Rightarrow> int \<Rightarrow> exn + int" where
  "iterate_next s 0 this = Inr this"
| "iterate_next s (Suc n) this =
     (case Scheduler_next s this of
        Inl e \<Rightarrow> Inl e
      | Inr nxt \<Rightarrow> iterate_next s n nxt)"

section \<open>Observers\<close>

text \<open>
  The observer classes of the module.  An observer is a Python object, so it has an identity
  (\<open>oid\<close>) besides its class: \<^verbatim>\<open>list.index\<close> compares by identity for these classes.
  \<^verbatim>\<open>TargetSteps\<close>, \<^verbatim>\<open>TargetRMSD\<close> and \<^verbatim>\<open>TargetWallTime\<close> are the subclasses of
  \<^verbatim>\<open>Target\<close>; \<^verbatim>\<open>UserStop\<close> derives from \<^verbatim>\<open>object\<close>.  \<open>Callable\<close> stands for a general
  purpose callback handed to \<^verbatim>\<open>add\<close>: what a call of it raises is given by the environment.
  Python floats are modelled as reals, and \<^verbatim>\<open>float(n)\<close> of an integer as exact, which it is
  up to \<open>2 ^ 53\<close>.
\<close>

datatype obs_class =
    WriterThermo
  | WriterConfig
  | WriterCheckpoint
  | Speedometer "string option"
  | TargetSteps int
  | TargetRMSD real
  | TargetWallTime real
  | UserStop
  | Callable

datatype observer = Observer (oid: nat) (cls: obs_class)

fun isinstance_Target :: "observer \<Rightarrow> bool" where
  "isinstance_Target (Observer n (TargetSteps t)) = True"
| "isinstance_Target (Observer n (TargetRMSD r)) = True"
| "isinstance_Target (Observer n (TargetWallTime w)) = True"
| "isinstance_Target (Observer n c) = False"

text \<open>
  The attribute \<^verbatim>\<open>target\<close> of a Target.  \<^verbatim>\<open>TargetWallTime.__init__\<close> sets
  \<^verbatim>\<open>wtime_limit\<close> only and does not call \<^verbatim>\<open>Target.__init__\<close>: such an object has neither
  \<^verbatim>\<open>name\<close> nor \<^verbatim>\<open>target\<close>.
\<close>

fun target_attr :: "observer \<Rightarrow> exn + real" where
  "target_attr (Observer n (TargetSteps t)) = Inr (of_int t)"
| "target_attr (Observer n (TargetRMSD r)) = Inr r"
| "target_attr (Observer n c) = Inl AttributeError"

fun target_name :: "observer \<Rightarrow> exn + string" where
  "target_name (Observer n (TargetSteps t)) = Inr ''steps''"
| "target_name (Observer n (TargetRMSD r)) = Inr ''rmsd''"
| "target_name (Observer n c) = Inl AttributeError"

text \<open>
  The attributes that a \<^verbatim>\<open>Speedometer\<close> sets on itself in its first call; before, it has
  \<^verbatim>\<open>_init = False\<close> and none of them.
\<close>

record speedometer =
  name_target :: string
  x_target :: real
  t_last :: real
  x_last :: real

section \<open>The simulation object\<close>

datatype log_line =
    TargetedSteps int
  | Blank
  | Title
  | Version
  | TargetLine observer real
  | WriterLine observer scheduler
  | StartingAt int
  | EndMessage message
  | FinalRmsd real
  | WallTime real
  | TSP real
  | EndedOn
  | SimulationFailed
  | Goodbye

text \<open>
  What a run does to the outside is recorded in a trace: every call of an observer, with
  the value \<^verbatim>\<open>steps\<close> had at the call, every \<^verbatim>\<open>run_pre\<close> and \<^verbatim>\<open>run_until\<close>, and
  every line that \<^verbatim>\<open>run\<close> and \<^verbatim>\<open>report\<close> log at level info or error.  What an observer
  itself writes (the file of a writer, the progress line of a speedometer) is not recorded.
\<close>

datatype event =
    Called observer int
  | RunPre
  | RunUntil int
  | LogInfo log_line
  | LogError log_line

text \<open>
  The attributes of a \<^verbatim>\<open>Simulation\<close>.  \<open>particles\<close> is \<^verbatim>\<open>len(self.system.particle)\<close>; the
  base class has no attribute \<^verbatim>\<open>system\<close> (\<open>None\<close>), a subclass sets it.  \<open>speedometers\<close>
  is the store of the speedometers that have made their first call, by identity, the newest
  entry first.  \<open>ticks\<close> counts the readings of \<^verbatim>\<open>time.time()\<close> made so far and \<open>trace\<close> is
  the trace.
\<close>

record simulation =
  callback :: "observer list"
  scheduler :: "scheduler list"
  fixcm_interval :: int
  restart :: bool
  output_path :: "string option"
  steps :: int
  initial_steps :: int
  start_time :: real
  target_steps :: int
  writer_thermo :: observer
  writer_config :: observer
  writer_checkpoint :: observer
  particles :: "nat option"
  speedometers :: "(nat \<times> speedometer) list"
  ticks :: nat
  trace :: "event list"

text \<open>
  The environment of a run: the clock (\<open>time k\<close> is what the \<open>k\<close>-th reading of
  \<^verbatim>\<open>time.time()\<close> returns), the property \<^verbatim>\<open>rmsd\<close> (the base class returns 0.0, a subclass
  computes it from its backend), what a call of a general purpose callback raises, and
  what the subclass's \<^verbatim>\<open>run_until\<close> raises (the base class's is \<^verbatim>\<open>pass\<close>).
\<close>

record env =
  time :: "nat \<Rightarrow> real"
  rmsd :: "int \<Rightarrow> real"
  opaque :: "observer \<Rightarrow> simulation \<Rightarrow> exn option"
  backend :: "int \<Rightarrow> simulation \<Rightarrow> exn option"

definition base_env :: "(nat \<Rightarrow> real) \<Rightarrow> env" where
  "base_env clock =
     \<lparr>time = clock, rmsd = (\<lambda>n. 0), opaque = (\<lambda>ob s. None), backend = (\<lambda>n s. None)\<rparr>"

section \<open>Registration\<close>

text \<open>\<^verbatim>\<open>list.index\<close> (\<open>None\<close> for ValueError), \<^verbatim>\<open>list.pop(i)\<close> and \<^verbatim>\<open>list.insert(i, x)\<close>.\<close>

fun py_index :: "'a list \<Rightarrow> 'a \<Rightarrow> nat option" where
  "py_index [] x = None"
| "py_index (y # ys) x = (if y = x then Some 0 else map_option Suc (py_index ys x))"

definition py_pop :: "nat \<Rightarrow> 'a list \<Rightarrow> 'a list" where
  "py_pop i xs = take i xs @ drop (Suc i) xs"

definition py_insert :: "int \<Rightarrow> 'a \<Rightarrow> 'a list \<Rightarrow> 'a list" where
  "py_insert i x xs =
     (let n = int (length xs);
          j = (if i < 0 then max 0 (i + n) else min i n)
      in take (nat j) xs @ x # drop (nat j) xs)"

definition targeters :: "simulation \<Rightarrow> observer list" where
  "targeters s = filter isinstance_Target (callback s)"

definition non_targeters :: "simulation \<Rightarrow> observer list" where
  "non_targeters s = filter (\<lambda>ob. \<not> isinstance_Target ob) (callback s)"

text \<open>
  \<^verbatim>\<open>Simulation.add\<close>, in its two parts.  First the pair is put in: at the head when the
  observer is not a Target, at the end when it is.
\<close>

definition insert_observer :: "observer \<Rightarrow> scheduler \<Rightarrow> simulation \<Rightarrow> simulation" where
  "insert_observer cb sch s =
     (if \<not> isinstance_Target cb
      then s\<lparr>callback := cb # callback s, scheduler := sch # scheduler s\<rparr>
      else s\<lparr>callback := callback s @ [cb], scheduler := scheduler s @ [sch]\<rparr>)"

text \<open>
  Then the checkpoint writer, if it is in \<^verbatim>\<open>_callback\<close>, is moved.  The two lists are
  spliced with the same indices; were \<^verbatim>\<open>_scheduler\<close> shorter than the index found in
  \<^verbatim>\<open>_callback\<close>, its \<^verbatim>\<open>pop\<close> would raise IndexError, which the \<^verbatim>\<open>except ValueError\<close> does
  not catch.
\<close>

definition enforce_checkpoint :: "simulation \<Rightarrow> exn + simulation" where
  "enforce_checkpoint s =
     (case py_index (callback s) (writer_checkpoint s) of
        None \<Rightarrow> Inr s
      | Some idx \<Rightarrow>
          let cnt = int (length (non_targeters s))
          in if idx < length (scheduler s)
             then Inr (s\<lparr>callback := py_insert (cnt - 1) (callback s ! idx) (py_pop idx (callback s)),
                         scheduler := py_insert (cnt - 1) (scheduler s ! idx) (py_pop idx (scheduler s))\<rparr>)
             else Inl IndexError)"

definition add :: "observer \<Rightarrow> scheduler \<Rightarrow> simulation \<Rightarrow> exn + simulation" where
  "add cb sch s = enforce_checkpoint (insert_observer cb sch s)"

text \<open>A sequence of \<^verbatim>\<open>add\<close> calls, stopping at the first that raises.\<close>

fun add_all :: "(observer \<times> scheduler) list \<Rightarrow> simulation \<Rightarrow> exn + simulation" where
  "add_all [] s = Inr s"
| "add_all ((cb, sch) # regs) s =
     (case add cb sch s of
        Inl e \<Rightarrow> Inl e
      | Inr s' \<Rightarrow> add_all regs s')"

text \<open>
  The registrations made so far, by role: the writers other than the checkpoint writer, the
  registrations of the checkpoint writer, and the targets.  \<open>ledger_of s regs\<close> says how
  the two lists of \<open>s\<close> are made of the registrations \<open>regs\<close>: the writers, the newest
  first, then the checkpoint writer, then the targets, the oldest first.
\<close>

definition writers_of :: "observer \<Rightarrow> (observer \<times> scheduler) list \<Rightarrow> (observer \<times> scheduler) list" where
  "writers_of cp regs = filter (\<lambda>r. \<not> isinstance_Target (fst r) \<and> fst r \<noteq> cp) regs"

definition checkpoints_of :: "observer \<Rightarrow> (observer \<times> scheduler) list \<Rightarrow> (observer \<times> scheduler) list" where
  "checkpoints_of cp regs = filter (\<lambda>r. fst r = cp) regs"

definition targets_of :: "(observer \<times> scheduler) list \<Rightarrow> (observer \<times> scheduler) list" where
  "targets_of regs = filter (\<lambda>r. isinstance_Target (fst r)) regs"

definition ledger_of :: "simulation \<Rightarrow> (observer \<times> scheduler) list \<Rightarrow> bool" where
  "ledger_of s regs \<longleftrightarrow>
     (\<exists>Cs. callback s = map fst (rev (writers_of (writer_checkpoint s) regs) @ Cs @ targets_of regs)
         \<and> scheduler s = map snd (rev (writers_of (writer_checkpoint s) regs) @ Cs @ targets_of regs)
         \<and> mset Cs = mset (checkpoints_of (writer_checkpoint s) regs))"

section \<open>Construction\<close>

text \<open>
  The keyword arguments of \<^verbatim>\<open>Simulation.__init__\<close> (\<open>cfg_steps\<close> is \<^verbatim>\<open>steps\<close>), with their
  defaults.  \<^verbatim>\<open>initial_state\<close> is stored nowhere by the base class.
\<close>

record config =
  cfg_output_path :: "string option"
  cfg_steps :: int
  cfg_rmsd :: "real option"
  thermo_interval :: int
  thermo_number :: int
  config_interval :: int
  config_number :: int
  checkpoint_interval :: int
  checkpoint_number :: int
  cfg_fixcm_interval :: int
  cfg_restart :: bool

definition default_config :: config where
  "default_config =
     \<lparr>cfg_output_path = None, cfg_steps = 0, cfg_rmsd = None,
      thermo_interval = 0, thermo_number = 0,
      config_interval = 0, config_number = 0,
      checkpoint_interval = 0, checkpoint_number = 0,
      cfg_fixcm_interval = 0, cfg_restart = False\<rparr>"

text \<open>
  \<^verbatim>\<open>int(x / 200.)\<close>: \<^verbatim>\<open>int\<close> truncates towards zero.  The division is a floating point
  one in the source and exact here; the two agree for step counts up to \<open>2 ^ 53\<close>.
\<close>

definition int_div200 :: "int \<Rightarrow> int" where
  "int_div200 x = (if x < 0 then - ((- x) div 200) else x div 200)"

definition then_add :: "observer \<Rightarrow> exn + scheduler \<Rightarrow> exn + simulation \<Rightarrow> exn + simulation" where
  "then_add cb sch r =
     (case r of
        Inl e \<Rightarrow> Inl e
      | Inr s \<Rightarrow> (case sch of Inl e \<Rightarrow> Inl e | Inr sc \<Rightarrow> add cb sc s))"

text \<open>
  \<^verbatim>\<open>Simulation.__init__\<close> up to the first \<^verbatim>\<open>add\<close>: the attributes are set, the clock is read
  once for \<^verbatim>\<open>start_time\<close> and the three writers are created, with the identities 0 to 2.
\<close>

definition Simulation_attributes :: "env \<Rightarrow> config \<Rightarrow> simulation" where
  "Simulation_attributes ev cfg =
     \<lparr>callback = [], scheduler = [],
      fixcm_interval = cfg_fixcm_interval cfg,
      restart = cfg_restart cfg,
      output_path = cfg_output_path cfg,
      steps = 0, initial_steps = 0,
      start_time = time ev 0,
      target_steps = cfg_steps cfg,
      writer_thermo = Observer 0 WriterThermo,
      writer_config = Observer 1 WriterConfig,
      writer_checkpoint = Observer 2 WriterCheckpoint,
      particles = None, speedometers = [], ticks = 1, trace = []\<rparr>"

text \<open>
  \<^verbatim>\<open>Simulation.__init__\<close>: the registrations, in the order of the source.  The targets and
  the two speedometers get the identities 3 to 6.
\<close>

definition Simulation_init :: "env \<Rightarrow> config \<Rightarrow> exn + simulation" where
  "Simulation_init ev cfg =
     (let ts = cfg_steps cfg;
          s0 = Simulation_attributes ev cfg;
          r1 = then_add (Observer 3 (TargetSteps ts)) (Scheduler_init (Some (max 1 ts)) None None) (Inr s0);
          r2 = (case cfg_rmsd cfg of
                  None \<Rightarrow> r1
                | Some x \<Rightarrow> then_add (Observer 4 (TargetRMSD x)) (Scheduler_init (Some 10000) None None) r1);
          r3 = then_add (Observer 5 (Speedometer None)) (Scheduler_init None (Some 10) (Some ts)) r2;
          r4 = then_add (Observer 6 (Speedometer (Some ''ETA''))) (Inr (OnetimeScheduler (max 1 (int_div200 ts)))) r3;
          r5 = then_add (writer_thermo s0)
                 (Scheduler_init (Some (thermo_interval cfg)) (Some (thermo_number cfg)) (Some ts)) r4;
          r6 = then_add (writer_config s0)
                 (Scheduler_init (Some (config_interval cfg)) (Some (config_number cfg)) (Some ts)) r5
      in then_add (writer_checkpoint s0)
           (Scheduler_init (Some (checkpoint_interval cfg)) (Some (checkpoint_number cfg)) (Some ts)) r6)"

text \<open>
  The scheduler \<^verbatim>\<open>Scheduler(interval, number, target)\<close> of a writer, as
  \<^verbatim>\<open>Scheduler.__init__\<close> leaves it when a target is given.
\<close>

definition writer_scheduler :: "int \<Rightarrow> int \<Rightarrow> int \<Rightarrow> scheduler" where
  "writer_scheduler i n ts =
     (if 0 < i \<or> \<not> 0 < n then Scheduler (Some i) (Some n) (Some ts)
      else Scheduler (Some (max 1 (ts div n))) (Some n) (Some ts))"

text \<open>The registrations that \<^verbatim>\<open>Simulation.__init__\<close> makes, in their order.\<close>

definition init_registrations :: "config \<Rightarrow> (observer \<times> scheduler) list" where
  "init_registrations cfg =
     [(Observer 3 (TargetSteps (cfg_steps cfg)), Scheduler (Some (max 1 (cfg_steps cfg))) None None)]
     @ (case cfg_rmsd cfg of
          None \<Rightarrow> []
        | Some x \<Rightarrow> [(Observer 4 (TargetRMSD x), Scheduler (Some 10000) None None)])
     @ [(Observer 5 (Speedometer None),
           Scheduler (Some (max 1 (cfg_steps cfg div 10))) (Some 10) (Some (cfg_steps cfg))),
        (Observer 6 (Speedometer (Some ''ETA'')), OnetimeScheduler (max 1 (int_div200 (cfg_steps cfg)))),
        (Observer 0 WriterThermo,
           writer_scheduler (thermo_interval cfg) (thermo_number cfg) (cfg_steps cfg)),
        (Observer 1 WriterConfig,
           writer_scheduler (config_interval cfg) (config_number cfg) (cfg_steps cfg)),
        (Observer 2 WriterCheckpoint,
           writer_scheduler (checkpoint_interval cfg) (checkpoint_number cfg) (cfg_steps cfg))]"

section \<open>Wall time\<close>

definition elapsed_wall_time :: "env \<Rightarrow> simulation \<Rightarrow> real \<times> simulation" where
  "elapsed_wall_time ev s = (time ev (ticks s) - start_time s, s\<lparr>ticks := Suc (ticks s)\<rparr>)"

text \<open>
  \<^verbatim>\<open>wall_time_per_step\<close>: a float divided by the integer \<^verbatim>\<open>steps - initial_steps\<close>; Python
  raises ZeroDivisionError when the divisor is zero.
\<close>

definition wall_time_per_step :: "env \<Rightarrow> simulation \<Rightarrow> (exn + real) \<times> simulation" where
  "wall_time_per_step ev s =
     (case elapsed_wall_time ev s of
        (t, s1) \<Rightarrow>
          if steps s1 - initial_steps s1 = 0 then (Inl ZeroDivisionError, s1)
          else (Inr (t / of_int (steps s1 - initial_steps s1)), s1))"

text \<open>
  \<^verbatim>\<open>wall_time_per_step_particle\<close>: the left operand \<^verbatim>\<open>self.wall_time_per_step()\<close> is
  evaluated before \<^verbatim>\<open>len(self.system.particle)\<close>.
\<close>

definition wall_time_per_step_particle :: "env \<Rightarrow> simulation \<Rightarrow> (exn + real) \<times> simulation" where
  "wall_time_per_step_particle ev s =
     (case wall_time_per_step ev s of
        (Inl e, s1) \<Rightarrow> (Inl e, s1)
      | (Inr w, s1) \<Rightarrow>
          (case particles s1 of
             None \<Rightarrow> (Inl AttributeError, s1)
           | Some n \<Rightarrow>
               if n = 0 then (Inl ZeroDivisionError, s1)
               else (Inr (w / of_nat n), s1)))"

section \<open>Calling observers\<close>

definition log_info :: "log_line \<Rightarrow> simulation \<Rightarrow> simulation" where
  "log_info l s = s\<lparr>trace := trace s @ [LogInfo l]\<rparr>"

definition log_error :: "log_line \<Rightarrow> simulation \<Rightarrow> simulation" where
  "log_error l s = s\<lparr>trace := trace s @ [LogError l]\<rparr>"

text \<open>\<^verbatim>\<open>float(getattr(sim, name))\<close>, for the two names that the Targets of the module have.\<close>

definition getattr_float :: "env \<Rightarrow> simulation \<Rightarrow> string \<Rightarrow> exn + real" where
  "getattr_float ev s name =
     (if name = ''steps'' then Inr (of_int (steps s))
      else if name = ''rmsd'' then Inr (rmsd ev (steps s))
      else Inl AttributeError)"

text \<open>
  The first call of a \<^verbatim>\<open>Speedometer\<close>: it takes name and target of the first Target in
  \<^verbatim>\<open>_callback\<close>, reads the clock and the attribute, and returns.  A \<^verbatim>\<open>TargetWallTime\<close> has
  no \<^verbatim>\<open>name\<close>; with no Target at all the call goes on to read \<^verbatim>\<open>self.x_target\<close>, which is
  not set.
\<close>

definition Speedometer_first :: "env \<Rightarrow> observer \<Rightarrow> simulation \<Rightarrow> exn option \<times> simulation" where
  "Speedometer_first ev ob s =
     (case find isinstance_Target (callback s) of
        None \<Rightarrow> (Some AttributeError, s)
      | Some c \<Rightarrow>
          (case target_name c of
             Inl e \<Rightarrow> (Some e, s)
           | Inr nm \<Rightarrow>
               (case target_attr c of
                  Inl e \<Rightarrow> (Some e, s)
                | Inr tg \<Rightarrow>
                    (case getattr_float ev s nm of
                       Inl e \<Rightarrow> (Some e, s\<lparr>ticks := Suc (ticks s)\<rparr>)
                     | Inr x \<Rightarrow>
                         (None, s\<lparr>speedometers :=
                                     (oid ob, \<lparr>name_target = nm, x_target = tg,
                                               t_last = time ev (ticks s), x_last = x\<rparr>)
                                     # speedometers s,
                                   ticks := Suc (ticks s)\<rparr>)))))"

text \<open>
  The later calls of a \<^verbatim>\<open>Speedometer\<close>.  With a positive target it reads the clock and
  the attribute, divides the progress by the time since its last call and the remaining
  progress by that speed (each division raises ZeroDivisionError on a zero divisor), and
  formats a line that contains \<^verbatim>\<open>wall_time_per_step_particle()\<close>; then it stores the two
  readings.  With a target that is not positive the two readings are not made, and storing
  them raises UnboundLocalError.  The date arithmetic of the line in the mode \<^verbatim>\<open>'ETA'\<close> is
  taken to succeed: it fails only for an estimated end outside the years 1900 to 9999.
\<close>

definition Speedometer_later ::
  "env \<Rightarrow> observer \<Rightarrow> speedometer \<Rightarrow> simulation \<Rightarrow> exn option \<times> simulation" where
  "Speedometer_later ev ob sp s =
     (if 0 < x_target sp then
        (let t_now = time ev (ticks s);
             s1 = s\<lparr>ticks := Suc (ticks s)\<rparr>
         in case getattr_float ev s1 (name_target sp) of
              Inl e \<Rightarrow> (Some e, s1)
            | Inr x_now \<Rightarrow>
                if t_now - t_last sp = 0 then (Some ZeroDivisionError, s1)
                else if (x_now - x_last sp) / (t_now - t_last sp) = 0
                  then (Some ZeroDivisionError, s1)
                else
                  (case wall_time_per_step_particle ev s1 of
                     (Inl e, s2) \<Rightarrow> (Some e, s2)
                   | (Inr w, s2) \<Rightarrow>
                       (None, s2\<lparr>speedometers :=
                                    (oid ob, sp\<lparr>t_last := t_now, x_last := x_now\<rparr>)
                                    # speedometers s2\<rparr>)))
      else (Some UnboundLocalError, s))"

text \<open>\<^verbatim>\<open>Speedometer.__call__\<close>.\<close>

definition Speedometer_call :: "env \<Rightarrow> observer \<Rightarrow> simulation \<Rightarrow> exn option \<times> simulation" where
  "Speedometer_call ev ob s =
     (case map_of (speedometers s) (oid ob) of
        None \<Rightarrow> Speedometer_first ev ob s
      | Some sp \<Rightarrow> Speedometer_later ev ob sp s)"

text \<open>
  \<^verbatim>\<open>o(self)\<close>: the \<^verbatim>\<open>__call__\<close> of each class.  The writers of the base module are
  \<^verbatim>\<open>pass\<close>.  \<^verbatim>\<open>Target.__call__\<close> raises \<^verbatim>\<open>SimulationEnd\<close> once the attribute it watches
  has reached the target; \<^verbatim>\<open>TargetWallTime.__call__\<close> raises \<^verbatim>\<open>WallTimeLimit\<close> once the
  elapsed time exceeds the limit, and reads the clock a second time otherwise.
  \<^verbatim>\<open>UserStop.__call__\<close> reads \<^verbatim>\<open>self.STORAGE\<close>, which a UserStop does not have, unless
  \<^verbatim>\<open>output_path\<close> is None, where it raises RuntimeError.
\<close>

definition call_observer :: "env \<Rightarrow> observer \<Rightarrow> simulation \<Rightarrow> exn option \<times> simulation" where
  "call_observer ev ob s =
     (let s1 = s\<lparr>trace := trace s @ [Called ob (steps s)]\<rparr>
      in case cls ob of
           WriterThermo \<Rightarrow> (None, s1)
         | WriterConfig \<Rightarrow> (None, s1)
         | WriterCheckpoint \<Rightarrow> (None, s1)
         | TargetSteps t \<Rightarrow>
             if t \<le> steps s1 then (Some (SimulationEnd (AchievedTarget ''steps'' (of_int t))), s1)
             else (None, s1)
         | TargetRMSD r \<Rightarrow>
             if r \<le> rmsd ev (steps s1) then (Some (SimulationEnd (AchievedTarget ''rmsd'' r)), s1)
             else (None, s1)
         | TargetWallTime limit \<Rightarrow>
             (case elapsed_wall_time ev s1 of
                (t1, s2) \<Rightarrow>
                  if limit < t1 then (Some WallTimeLimit, s2)
                  else (None, snd (elapsed_wall_time ev s2)))
         | UserStop \<Rightarrow>
             if output_path s1 \<noteq> None then (Some AttributeError, s1)
             else (Some RuntimeError, s1)
         | Speedometer what \<Rightarrow> Speedometer_call ev ob s1
         | Callable \<Rightarrow> (opaque ev ob s1, s1))"

text \<open>\<^verbatim>\<open>notify\<close>: the observers are called in the order of the list, up to the first that raises.\<close>

fun notify :: "env \<Rightarrow> observer list \<Rightarrow> simulation \<Rightarrow> exn option \<times> simulation" where
  "notify ev [] s = (None, s)"
| "notify ev (ob # obs) s =
     (case call_observer ev ob s of
        (Some e, s1) \<Rightarrow> (Some e, s1)
      | (None, s1) \<Rightarrow> notify ev obs s1)"

section \<open>Reports\<close>

text \<open>
  \<^verbatim>\<open>_report_observers\<close>: the line of a Target reads its attribute \<^verbatim>\<open>target\<close>, the line of
  any other observer reads \<^verbatim>\<open>interval\<close> and \<^verbatim>\<open>calls\<close> of its scheduler, which both scheduler
  classes have.
\<close>

fun report_observers :: "(observer \<times> scheduler) list \<Rightarrow> simulation \<Rightarrow> exn option \<times> simulation" where
  "report_observers [] s = (None, s)"
| "report_observers ((f, sch) # rest) s =
     (if isinstance_Target f then
        (case target_attr f of
           Inl e \<Rightarrow> (Some e, s)
         | Inr t \<Rightarrow> report_observers rest (log_info (TargetLine f t) s))
      else report_observers rest (log_info (WriterLine f sch) s))"

definition report :: "simulation \<Rightarrow> exn option \<times> simulation" where
  "report s =
     report_observers (zip (callback s) (scheduler s))
       (log_info Version (log_info Blank (log_info Title (log_info Blank s))))"

text \<open>
  \<^verbatim>\<open>_report_end\<close>: the line with the time per step and particle is formatted, hence
  \<^verbatim>\<open>wall_time_per_step_particle\<close> called, after the first two lines are out.
\<close>

definition report_end :: "env \<Rightarrow> simulation \<Rightarrow> exn option \<times> simulation" where
  "report_end ev s =
     (let s1 = log_info (FinalRmsd (rmsd ev (steps s))) s
      in case elapsed_wall_time ev s1 of
           (t, s2) \<Rightarrow>
             (case wall_time_per_step_particle ev (log_info (WallTime t) s2) of
                (Inl e, s3) \<Rightarrow> (Some e, s3)
              | (Inr w, s3) \<Rightarrow> (None, log_info EndedOn (log_info (TSP w) s3))))"

section \<open>The run loop\<close>

text \<open>\<^verbatim>\<open>[s.next(self.steps) for s in self._scheduler]\<close>, \<^verbatim>\<open>min\<close> and the two comprehensions.\<close>

fun all_steps :: "scheduler list \<Rightarrow> int \<Rightarrow> exn + int list" where
  "all_steps [] this = Inr []"
| "all_steps (sch # rest) this =
     (case Scheduler_next sch this of
        Inl e \<Rightarrow> Inl e
      | Inr n \<Rightarrow> (case all_steps rest this of Inl e \<Rightarrow> Inl e | Inr ns \<Rightarrow> Inr (n # ns)))"

fun py_min :: "int list \<Rightarrow> exn + int" where
  "py_min [] = Inl ValueError"
| "py_min (x # xs) = Inr (fold min xs x)"

definition next_step_ids :: "int list \<Rightarrow> int \<Rightarrow> nat list" where
  "next_step_ids ns next_step = filter (\<lambda>i. ns ! i = next_step) [0..<length ns]"

fun next_obs :: "observer list \<Rightarrow> nat list \<Rightarrow> exn + observer list" where
  "next_obs cbs [] = Inr []"
| "next_obs cbs (i # ids) =
     (if i < length cbs
      then (case next_obs cbs ids of Inl e \<Rightarrow> Inl e | Inr obs \<Rightarrow> Inr (cbs ! i # obs))
      else Inl IndexError)"

definition run_until :: "env \<Rightarrow> int \<Rightarrow> simulation \<Rightarrow> exn option \<times> simulation" where
  "run_until ev n s =
     (let s1 = s\<lparr>trace := trace s @ [RunUntil n]\<rparr> in (backend ev n s1, s1))"

text \<open>One pass through the body of \<^verbatim>\<open>while True\<close>.\<close>

definition loop_iteration :: "env \<Rightarrow> simulation \<Rightarrow> exn option \<times> simulation" where
  "loop_iteration ev s =
     (case all_steps (scheduler s) (steps s) of
        Inl e \<Rightarrow> (Some e, s)
      | Inr ns \<Rightarrow>
          (case py_min ns of
             Inl e \<Rightarrow> (Some e, s)
           | Inr next_step \<Rightarrow>
               (case next_obs (callback s) (next_step_ids ns next_step) of
                  Inl e \<Rightarrow> (Some e, s)
                | Inr obs \<Rightarrow>
                    (case run_until ev next_step s of
                       (Some e, s1) \<Rightarrow> (Some e, s1)
                     | (None, s1) \<Rightarrow> notify ev obs (s1\<lparr>steps := next_step\<rparr>)))))"

text \<open>
  The loop leaves by an exception only.  \<open>main_loop n\<close> runs at most \<open>n\<close> passes: the
  result is the exception and the state it left, or \<open>None\<close> when the loop is still running
  after \<open>n\<close> passes.
\<close>

fun main_loop :: "nat \<Rightarrow> env \<Rightarrow> simulation \<Rightarrow> (exn \<times> simulation) option" where
  "main_loop 0 ev s = None"
| "main_loop (Suc n) ev s =
     (case loop_iteration ev s of
        (Some e, s1) \<Rightarrow> Some (e, s1)
      | (None, s1) \<Rightarrow> main_loop n ev s1)"

text \<open>The body of the \<^verbatim>\<open>try\<close> statement of \<^verbatim>\<open>run\<close>.\<close>

definition run_try :: "nat \<Rightarrow> env \<Rightarrow> simulation \<Rightarrow> (exn \<times> simulation) option" where
  "run_try fuel ev s =
     (case notify ev (targeters s) s of
        (Some e, s1) \<Rightarrow> Some (e, s1)
      | (None, s1) \<Rightarrow>
          (case (if \<not> restart s1 then notify ev (non_targeters s1) s1 else (None, s1)) of
             (Some e, s2) \<Rightarrow> Some (e, s2)
           | (None, s2) \<Rightarrow> main_loop fuel ev (log_info Blank (log_info (StartingAt (steps s2)) s2))))"

text \<open>The handler \<^verbatim>\<open>except SimulationEnd as s\<close>.\<close>

definition on_SimulationEnd :: "env \<Rightarrow> message \<Rightarrow> simulation \<Rightarrow> exn option \<times> simulation" where
  "on_SimulationEnd ev m s =
     (case call_observer ev (writer_checkpoint s) s of
        (Some e, s1) \<Rightarrow> (Some e, s1)
      | (None, s1) \<Rightarrow>
          (let s2 = log_info (EndMessage m) s1
           in if initial_steps s2 \<noteq> steps s2 then report_end ev s2 else (None, s2)))"

text \<open>
  The three \<^verbatim>\<open>except\<close> clauses and the \<^verbatim>\<open>finally\<close> clause: the result is the exception that
  leaves \<^verbatim>\<open>run\<close>, if any.
\<close>

definition run_except :: "env \<Rightarrow> exn \<Rightarrow> simulation \<Rightarrow> exn option \<times> simulation" where
  "run_except ev e s =
     (case (case e of
              SimulationEnd m \<Rightarrow> on_SimulationEnd ev m s
            | KeyboardInterrupt \<Rightarrow> (None, s)
            | _ \<Rightarrow> (Some e, log_error SimulationFailed s)) of
        (r, s1) \<Rightarrow> (r, log_info Goodbye s1))"

text \<open>The statements of \<^verbatim>\<open>run\<close> before \<^verbatim>\<open>report\<close>.\<close>

definition run_begin :: "int option \<Rightarrow> simulation \<Rightarrow> simulation" where
  "run_begin tgt s =
     (let s1 = (case tgt of
                  None \<Rightarrow> s
                | Some n \<Rightarrow>
                    log_info (TargetedSteps n)
                      ((if target_steps s < n then s\<lparr>restart := True\<rparr> else s)\<lparr>target_steps := n\<rparr>));
          s2 = s1\<lparr>initial_steps := steps s1\<rparr>
      in s2\<lparr>trace := trace s2 @ [RunPre]\<rparr>)"

text \<open>
  The whole \<^verbatim>\<open>try\<close> statement: body, handlers and \<^verbatim>\<open>finally\<close>.  The result is \<open>None\<close> when
  the loop is still running after \<open>fuel\<close> passes.
\<close>

definition run_protected :: "nat \<Rightarrow> env \<Rightarrow> simulation \<Rightarrow> (exn option \<times> simulation) option" where
  "run_protected fuel ev s =
     (case run_try fuel ev s of
        None \<Rightarrow> None
      | Some (e, s1) \<Rightarrow> Some (run_except ev e s1))"

text \<open>
  \<^verbatim>\<open>Simulation.run(target_steps)\<close>.  \<^verbatim>\<open>report\<close> is called before the \<^verbatim>\<open>try\<close> statement, so
  what it raises leaves \<^verbatim>\<open>run\<close> at once.
\<close>

definition run :: "nat \<Rightarrow> env \<Rightarrow> int option \<Rightarrow> simulation \<Rightarrow> (exn option \<times> simulation) option" where
  "run fuel ev tgt s =
     (case report (run_begin tgt s) of
        (Some e, s1) \<Rightarrow> Some (Some e, s1)
      | (None, s1) \<Rightarrow> run_protected fuel ev s1)"

text \<open>A second call of \<^verbatim>\<open>run\<close> on the same object, once the first has returned.\<close>

definition then_run ::
  "nat \<Rightarrow> env \<Rightarrow> int option \<Rightarrow> (exn option \<times> simulation) option \<Rightarrow> (exn option \<times> simulation) option" where
  "then_run fuel ev tgt r =
     (case r of
        Some (None, s) \<Rightarrow> run fuel ev tgt s
      | _ \<Rightarrow> None)"

text \<open>
  The attributes that neither an observer nor the loop assigns: everything but \<^verbatim>\<open>steps\<close>,
  the store of the speedometers, the clock readings and the trace.
\<close>

definition only_effects :: "simulation \<Rightarrow> simulation \<Rightarrow> bool" where
  "only_effects s s' \<longleftrightarrow>
     callback s' = callback s \<and> scheduler s' = scheduler s
   \<and> fixcm_interval s' = fixcm_interval s \<and> restart s' = restart s
   \<and> output_path s' = output_path s \<and> initial_steps s' = initial_steps s
   \<and> start_time s' = start_time s \<and> target_steps s' = target_steps s
   \<and> writer_thermo s' = writer_thermo s \<and> writer_config s' = writer_config s
   \<and> writer_checkpoint s' = writer_checkpoint s \<and> particles s' = particles s"

section \<open>Concrete simulations\<close>

text \<open>A clock that advances by one second at every reading.\<close>

definition clock :: "nat \<Rightarrow> real" where
  "clock k = real k"

text \<open>The object \<^verbatim>\<open>Simulation(state, steps=50)\<close> right after its construction.\<close>

definition sim50 :: simulation where
  "sim50 =
     \<lparr>callback =
        [Observer 1 WriterConfig, Observer 0 WriterThermo,
         Observer 6 (Speedometer (Some ''ETA'')), Observer 5 (Speedometer None),
         Observer 2 WriterCheckpoint, Observer 3 (TargetSteps 50)],
      scheduler =
        [Scheduler (Some 0) (Some 0) (Some 50), Scheduler (Some 0) (Some 0) (Some 50),
         OnetimeScheduler 1, Scheduler (Some 5) (Some 10) (Some 50),
         Scheduler (Some 0) (Some 0) (Some 50), Scheduler (Some 50) None None],
      fixcm_interval = 0, restart = False, output_path = None, steps = 0,
      initial_steps = 0, start_time = 0, target_steps = 50,
      writer_thermo = Observer 0 WriterThermo,
      writer_config = Observer 1 WriterConfig,
      writer_checkpoint = Observer 2 WriterCheckpoint,
      particles = None, speedometers = [], ticks = 1, trace = []\<rparr>"

text \<open>Five registrations: a callback, the checkpoint writer, two targets and a writer.\<close>

definition example_regs :: "(observer \<times> scheduler) list" where
  "example_regs =
     [(Observer 7 Callable, Scheduler (Some 10) None None),
      (Observer 2 WriterCheckpoint, Scheduler (Some 50) None None),
      (Observer 3 (TargetSteps 100), Scheduler (Some 100) None None),
      (Observer 8 (TargetWallTime 0), Scheduler (Some 100) None None),
      (Observer 9 WriterThermo, Scheduler (Some 20) None None)]"

text \<open>
  An environment whose \<^verbatim>\<open>run_until(5)\<close> is interrupted by the operator (Ctrl-C while the
  backend advances).
\<close>

definition interrupted_env :: env where
  "interrupted_env =
     (base_env clock)\<lparr>backend := (\<lambda>n s. if n = 5 then Some KeyboardInterrupt else None)\<rparr>"

text \<open>\<open>sim50\<close> in a subclass whose system has ten particles.\<close>

definition sim50_particles :: simulation where
  "sim50_particles = sim50\<lparr>particles := Some 10\<rparr>"

text \<open>That simulation after \<^verbatim>\<open>add(TargetWallTime(0), Scheduler(1))\<close>.\<close>

definition sim50_wall0 :: simulation where
  "sim50_wall0 =
     sim50_particles\<lparr>callback := callback sim50 @ [Observer 7 (TargetWallTime 0)],
                     scheduler := scheduler sim50 @ [Scheduler (Some 1) None None]\<rparr>"


section \<open>Properties of the schedulers\<close>

lemma Simulation_init_sim50:
  "Simulation_init (base_env clock) (default_config\<lparr>cfg_steps := 50\<rparr>) = Inr sim50"
  by code_simp

lemma next_gt: "0 < (i::int) \<Longrightarrow> this < (this div i + 1) * i"
proof -
  assume h: "0 < i"
  have "this = this div i * i + this mod i" by simp
  moreover have "this mod i < i" using h by simp
  ultimately have "this < this div i * i + i" by linarith
  then show ?thesis by (simp add: algebra_simps)
qed

lemma next_least: "0 < (i::int) \<Longrightarrow> i dvd m \<Longrightarrow> this < m \<Longrightarrow> (this div i + 1) * i \<le> m"
proof -
  assume h: "0 < i" and d: "i dvd m" and l: "this < m"
  from d obtain k where k: "m = i * k" by (auto simp: dvd_def)
  have "this div i < k"
  proof (rule ccontr)
    assume "\<not> this div i < k"
    then have "k \<le> this div i" by simp
    then have "k * i \<le> (this div i) * i" using h by (simp add: mult_right_mono)
    also have "\<dots> \<le> this" using h
      by (metis div_mult_mod_eq pos_mod_sign add_increasing2 order_refl)
    finally show False using l k by (simp add: mult.commute)
  qed
  then have "this div i + 1 \<le> k" by simp
  then have "(this div i + 1) * i \<le> k * i" using h by (simp add: mult_right_mono)
  then show ?thesis using k by (simp add: mult.commute)
qed

lemma iterate_next_closed:
  "0 < i \<Longrightarrow>
   iterate_next (Scheduler (Some i) c t) (Suc n) this = Inr ((this div i + 1 + int n) * i)"
proof (induction n arbitrary: this)
  case 0
  then show ?case by simp
next
  case (Suc n)
  have "iterate_next (Scheduler (Some i) c t) (Suc (Suc n)) this
      = iterate_next (Scheduler (Some i) c t) (Suc n) ((this div i + 1) * i)"
    using Suc.prems by simp
  also have "\<dots> = Inr ((((this div i + 1) * i) div i + 1 + int n) * i)"
    using Suc.IH [OF Suc.prems] .
  finally show ?case using Suc.prems by (simp add: algebra_simps)
qed

lemma iterate_next_visits:
  assumes i: "0 < i" and d: "i dvd m" and l: "this < m"
  shows "\<exists>n. iterate_next (Scheduler (Some i) c t) (Suc n) this = Inr m"
proof -
  from d obtain k where k: "m = i * k" by (auto simp: dvd_def)
  have "(this div i + 1) * i \<le> m" using next_least [OF i d l] .
  then have "(this div i + 1) * i \<le> k * i" using k by (simp add: mult.commute)
  then have "this div i + 1 \<le> k" using i by (simp add: mult_le_cancel_right)
  then obtain n where n: "k = this div i + 1 + int n"
    by (metis zle_iff_zadd)
  show ?thesis
    using iterate_next_closed [OF i, of c t n this] n k by (auto simp: mult.commute)
qed

text \<open>
  Claim C4.  For a scheduler with a fixed interval \<open>i > 0\<close> and a step \<open>this \<ge> 0\<close>,
  \<^verbatim>\<open>next(this)\<close> is \<open>(this div i + 1) * i\<close> with floor division: a multiple of \<open>i\<close>, greater
  than \<open>this\<close>, and the least such.  Applying \<^verbatim>\<open>next\<close> repeatedly gives a strictly increasing
  sequence, and every multiple of \<open>i\<close> above the start is reached after some number of
  applications.
\<close>

theorem Scheduler_next_multiples:
  assumes "0 < i" and "0 \<le> this"
  shows "Scheduler_next (Scheduler (Some i) c t) this = Inr ((this div i + 1) * i)
       \<and> this < (this div i + 1) * i
       \<and> i dvd (this div i + 1) * i
       \<and> (\<forall>m. i dvd m \<and> this < m \<longrightarrow> (this div i + 1) * i \<le> m)
       \<and> (\<forall>n. \<exists>a b. iterate_next (Scheduler (Some i) c t) n this = Inr a
                   \<and> iterate_next (Scheduler (Some i) c t) (Suc n) this = Inr b \<and> a < b)
       \<and> (\<forall>m. i dvd m \<and> this < m \<longrightarrow>
              (\<exists>n. iterate_next (Scheduler (Some i) c t) n this = Inr m))"
proof (intro conjI allI impI)
  show "Scheduler_next (Scheduler (Some i) c t) this = Inr ((this div i + 1) * i)"
    using assms by simp
  show "this < (this div i + 1) * i" using assms next_gt by simp
  show "i dvd (this div i + 1) * i" by simp
  show "(this div i + 1) * i \<le> m" if "i dvd m \<and> this < m" for m
    using that assms next_least by simp
  show "\<exists>a b. iterate_next (Scheduler (Some i) c t) n this = Inr a
             \<and> iterate_next (Scheduler (Some i) c t) (Suc n) this = Inr b \<and> a < b" for n
  proof (cases n)
    case 0
    then show ?thesis using assms next_gt [of i this] by simp
  next
    case (Suc k)
    have "iterate_next (Scheduler (Some i) c t) (Suc k) this = Inr ((this div i + 1 + int k) * i)"
      using iterate_next_closed assms by simp
    moreover have "iterate_next (Scheduler (Some i) c t) (Suc (Suc k)) this
        = Inr ((this div i + 1 + int (Suc k)) * i)"
      using iterate_next_closed [of i c t "Suc k" this] assms by simp
    moreover have "(this div i + 1 + int k) * i < (this div i + 1 + int (Suc k)) * i"
      using assms by (simp add: algebra_simps)
    ultimately show ?thesis using Suc by simp
  qed
  show "\<exists>n. iterate_next (Scheduler (Some i) c t) n this = Inr m" if "i dvd m \<and> this < m" for m
    using iterate_next_visits [of i m this c t] that assms by blast
qed

theorem Scheduler_next_multiples_witness:
  "(0::int) < 10 \<and> (0::int) \<le> 25
   \<and> Scheduler_next (Scheduler (Some 10) None None) 25 = Inr 30
   \<and> (\<exists>n. iterate_next (Scheduler (Some 10) None None) n 25 = Inr 70)"
proof -
  have a: "(0::int) < 10" and b: "(0::int) \<le> 25" by simp_all
  have d: "(10::int) dvd 70 \<and> (25::int) < 70" by simp
  from Scheduler_next_multiples [OF a b, of None None] d show ?thesis by simp
qed

text \<open>
  Claim C7.  \<^verbatim>\<open>Scheduler(0, calls, target)\<close> with \<open>calls > 0\<close> raises \<^verbatim>\<open>SchedulerError\<close> when
  \<^verbatim>\<open>target\<close> is None; with a target the construction succeeds and the interval is
  \<open>max 1 (target div calls)\<close>.  With 5 calls and the target 100 the interval is 20.
\<close>

theorem Scheduler_init_calls:
  "(0 < c \<longrightarrow> Scheduler_init (Some 0) (Some c) None = Inl SchedulerError)
   \<and> (0 < c \<longrightarrow> Scheduler_init (Some 0) (Some c) (Some t)
         = Inr (Scheduler (Some (max 1 (t div c))) (Some c) (Some t)))
   \<and> map_sum id interval (Scheduler_init (Some 0) (Some 5) (Some 100)) = Inr (Some 20)"
  by (simp add: Scheduler_init_def)

theorem Scheduler_init_calls_witness:
  "(0::int) < 5 \<and> Scheduler_init (Some 0) (Some 5) None = Inl SchedulerError
   \<and> Scheduler_init (Some 0) (Some 5) (Some 3) = Inr (Scheduler (Some 1) (Some 5) (Some 3))"
  using Scheduler_init_calls [of 5 3] by simp

section \<open>Wall time per step\<close>

text \<open>
  Claim C10.  When \<^verbatim>\<open>steps\<close> equals \<^verbatim>\<open>initial_steps\<close>, \<^verbatim>\<open>wall_time_per_step\<close> raises
  ZeroDivisionError, and so does \<^verbatim>\<open>wall_time_per_step_particle\<close>, whose first operand it is.
\<close>

theorem wall_time_per_step_zero:
  assumes "steps s = initial_steps s"
  shows "fst (wall_time_per_step ev s) = Inl ZeroDivisionError
       \<and> fst (wall_time_per_step_particle ev s) = Inl ZeroDivisionError"
  using assms by (simp add: wall_time_per_step_def wall_time_per_step_particle_def
      elapsed_wall_time_def)

theorem wall_time_per_step_zero_witness:
  "steps sim50 = initial_steps sim50
   \<and> fst (wall_time_per_step (base_env clock) sim50) = Inl ZeroDivisionError
   \<and> fst (wall_time_per_step_particle (base_env clock) sim50) = Inl ZeroDivisionError"
proof -
  have h: "steps sim50 = initial_steps sim50" by (simp add: sim50_def)
  from wall_time_per_step_zero [OF h] h show ?thesis by simp
qed

section \<open>The ledger\<close>

lemma py_index_append: "x \<notin> set A \<Longrightarrow> py_index (A @ x # R) x = Some (length A)"
  by (induction A) auto

lemma py_index_None: "x \<notin> set xs \<Longrightarrow> py_index xs x = None"
  by (induction xs) auto

lemma py_pop_append: "py_pop (length A) (A @ y # R) = A @ R"
  by (simp add: py_pop_def)

lemma py_insert_append: "py_insert (int (length A)) x (A @ R) = A @ x # R"
  by (simp add: py_insert_def Let_def)

lemma enforce_checkpoint_absent:
  "writer_checkpoint s \<notin> set (callback s) \<Longrightarrow> enforce_checkpoint s = Inr s"
  by (simp add: enforce_checkpoint_def py_index_None)

lemma enforce_checkpoint_present:
  assumes cb: "callback s = map fst (A @ c # B @ D)"
    and sc: "scheduler s = map snd (A @ c # B @ D)"
    and cp: "writer_checkpoint s = fst c"
    and A: "fst c \<notin> fst ` set A"
    and nt: "\<forall>x \<in> set (A @ c # B). \<not> isinstance_Target (fst x)"
    and tg: "\<forall>x \<in> set D. isinstance_Target (fst x)"
  shows "enforce_checkpoint s
       = Inr (s\<lparr>callback := map fst (A @ B @ c # D), scheduler := map snd (A @ B @ c # D)\<rparr>)"
proof -
  have idx: "py_index (callback s) (writer_checkpoint s) = Some (length (map fst A))"
    using py_index_append [of "fst c" "map fst A" "map fst (B @ D)"] A cb cp by simp
  have f1: "filter (\<lambda>ob. \<not> isinstance_Target ob) (map fst (A @ c # B)) = map fst (A @ c # B)"
    using nt by (intro filter_True) auto
  have f2: "filter (\<lambda>ob. \<not> isinstance_Target ob) (map fst D) = []"
    using tg by (intro filter_False) auto
  have "non_targeters s = filter (\<lambda>ob. \<not> isinstance_Target ob) (map fst (A @ c # B)) 
         @ filter (\<lambda>ob. \<not> isinstance_Target ob) (map fst D)"
    by (simp add: non_targeters_def cb)
  then have "non_targeters s = map fst (A @ c # B)" using f1 f2 by simp
  then have cnt: "int (length (non_targeters s)) - 1 = int (length (map fst (A @ B)))"
    by simp
  have cnt': "int (length (non_targeters s)) - 1 = int (length (map snd (A @ B)))"
    using cnt by simp
  have nth1: "callback s ! length (map fst A) = fst c"
    unfolding cb by (simp add: nth_append)
  have nth2: "scheduler s ! length (map fst A) = snd c"
    unfolding sc by (simp add: nth_append)
  have pop1: "py_pop (length (map fst A)) (callback s) = map fst (A @ B) @ map fst D"
    using py_pop_append [of "map fst A" "fst c" "map fst (B @ D)"] cb by simp
  have pop2: "py_pop (length (map fst A)) (scheduler s) = map snd (A @ B) @ map snd D"
    using py_pop_append [of "map snd A" "snd c" "map snd (B @ D)"] sc by simp
  have ins1: "py_insert (int (length (non_targeters s)) - 1) (fst c) (map fst (A @ B) @ map fst D)
      = map fst (A @ B @ c # D)"
    unfolding cnt using py_insert_append [of "map fst (A @ B)" "fst c" "map fst D"] by simp
  have ins2: "py_insert (int (length (non_targeters s)) - 1) (snd c) (map snd (A @ B) @ map snd D)
      = map snd (A @ B @ c # D)"
    unfolding cnt' using py_insert_append [of "map snd (A @ B)" "snd c" "map snd D"] by simp
  have lt: "length (map fst A) < length (scheduler s)" by (simp add: sc)
  show ?thesis
    unfolding enforce_checkpoint_def idx option.case Let_def nth1 nth2 pop1 pop2 ins1 ins2
    using lt by simp
qed

lemma enforce_checkpoint_regions:
  assumes cb: "callback s = map fst (A @ Cs @ D)"
    and sc: "scheduler s = map snd (A @ Cs @ D)"
    and ncp: "\<not> isinstance_Target (writer_checkpoint s)"
    and A: "\<forall>x \<in> set A. \<not> isinstance_Target (fst x) \<and> fst x \<noteq> writer_checkpoint s"
    and C: "\<forall>x \<in> set Cs. fst x = writer_checkpoint s"
    and D: "\<forall>x \<in> set D. isinstance_Target (fst x)"
  shows "enforce_checkpoint s
       = Inr (s\<lparr>callback := map fst (A @ rotate1 Cs @ D), scheduler := map snd (A @ rotate1 Cs @ D)\<rparr>)"
proof (cases Cs)
  case Nil
  have "writer_checkpoint s \<notin> set (callback s)"
    using A D ncp unfolding cb Nil by auto
  then have "enforce_checkpoint s = Inr s" by (rule enforce_checkpoint_absent)
  moreover have "s\<lparr>callback := map fst (A @ rotate1 Cs @ D), scheduler := map snd (A @ rotate1 Cs @ D)\<rparr> = s"
    using cb sc Nil by simp
  ultimately show ?thesis by simp
next
  case (Cons c Cs0)
  have c: "fst c = writer_checkpoint s" using C Cons by simp
  have 1: "callback s = map fst (A @ c # Cs0 @ D)" using cb Cons by simp
  have 2: "scheduler s = map snd (A @ c # Cs0 @ D)" using sc Cons by simp
  have 3: "fst c \<notin> fst ` set A" using A c by auto
  have 4: "\<forall>x \<in> set (A @ c # Cs0). \<not> isinstance_Target (fst x)"
    using A C ncp Cons by auto
  show ?thesis
    using enforce_checkpoint_present [OF 1 2 c [symmetric] 3 4 D] Cons by simp
qed

lemma mset_rotate1_eq: "mset (rotate1 xs) = mset xs"
  by (cases xs) simp_all

lemma add_ledger_of:
  assumes inv: "ledger_of s regs" and ncp: "\<not> isinstance_Target (writer_checkpoint s)"
  shows "\<exists>s'. add ob sch s = Inr s' \<and> writer_checkpoint s' = writer_checkpoint s
            \<and> ledger_of s' (regs @ [(ob, sch)])"
proof -
  let ?cp = "writer_checkpoint s"
  let ?W = "writers_of ?cp regs" and ?T = "targets_of regs"
  from inv obtain Cs where
    cb: "callback s = map fst (rev ?W @ Cs @ ?T)" and
    sc: "scheduler s = map snd (rev ?W @ Cs @ ?T)" and
    ms: "mset Cs = mset (checkpoints_of ?cp regs)"
    unfolding ledger_of_def by blast
  have Cs: "\<forall>x \<in> set Cs. fst x = ?cp"
    using ms by (metis (mono_tags, lifting) checkpoints_of_def mem_Collect_eq set_filter set_mset_mset)
  have W: "\<forall>x \<in> set (rev ?W). \<not> isinstance_Target (fst x) \<and> fst x \<noteq> ?cp"
    by (simp add: writers_of_def)
  have T: "\<forall>x \<in> set ?T. isinstance_Target (fst x)"
    by (simp add: targets_of_def)
  let ?s1 = "insert_observer ob sch s"
  have cp1: "writer_checkpoint ?s1 = ?cp" by (simp add: insert_observer_def)
  consider (target) "isinstance_Target ob"
    | (writer) "\<not> isinstance_Target ob" "ob \<noteq> ?cp"
    | (checkpoint) "ob = ?cp"
    by blast
  then show ?thesis
  proof cases
    case target
    then have ne: "ob \<noteq> ?cp" using ncp by auto
    have 1: "callback ?s1 = map fst (rev ?W @ Cs @ (?T @ [(ob, sch)]))"
      using target cb by (simp add: insert_observer_def)
    have 2: "scheduler ?s1 = map snd (rev ?W @ Cs @ (?T @ [(ob, sch)]))"
      using target sc by (simp add: insert_observer_def)
    have D: "\<forall>x \<in> set (?T @ [(ob, sch)]). isinstance_Target (fst x)"
      using T target by simp
    have e: "enforce_checkpoint ?s1 = Inr (?s1\<lparr>callback := map fst (rev ?W @ rotate1 Cs @ (?T @ [(ob, sch)])),
          scheduler := map snd (rev ?W @ rotate1 Cs @ (?T @ [(ob, sch)]))\<rparr>)"
      using enforce_checkpoint_regions [OF 1 2] ncp W Cs D unfolding cp1 by blast
    have w: "writers_of ?cp (regs @ [(ob, sch)]) = ?W" using target by (simp add: writers_of_def)
    have t: "targets_of (regs @ [(ob, sch)]) = ?T @ [(ob, sch)]" using target by (simp add: targets_of_def)
    have c: "checkpoints_of ?cp (regs @ [(ob, sch)]) = checkpoints_of ?cp regs"
      using ne by (simp add: checkpoints_of_def)
    show ?thesis
      unfolding add_def e ledger_of_def
      by (rule exI, intro conjI, rule refl, simp add: cp1,
          rule exI [of _ "rotate1 Cs"], simp add: cp1 w t c ms mset_rotate1_eq)
  next
    case writer
    have 1: "callback ?s1 = map fst (rev (?W @ [(ob, sch)]) @ Cs @ ?T)"
      using writer cb by (simp add: insert_observer_def)
    have 2: "scheduler ?s1 = map snd (rev (?W @ [(ob, sch)]) @ Cs @ ?T)"
      using writer sc by (simp add: insert_observer_def)
    have A: "\<forall>x \<in> set (rev (?W @ [(ob, sch)])). \<not> isinstance_Target (fst x) \<and> fst x \<noteq> ?cp"
      using W writer by simp
    have e: "enforce_checkpoint ?s1 = Inr (?s1\<lparr>callback := map fst (rev (?W @ [(ob, sch)]) @ rotate1 Cs @ ?T),
          scheduler := map snd (rev (?W @ [(ob, sch)]) @ rotate1 Cs @ ?T)\<rparr>)"
      using enforce_checkpoint_regions [OF 1 2] ncp A Cs T unfolding cp1 by blast
    have w: "writers_of ?cp (regs @ [(ob, sch)]) = ?W @ [(ob, sch)]"
      using writer by (simp add: writers_of_def)
    have t: "targets_of (regs @ [(ob, sch)]) = ?T" using writer by (simp add: targets_of_def)
    have c: "checkpoints_of ?cp (regs @ [(ob, sch)]) = checkpoints_of ?cp regs"
      using writer by (simp add: checkpoints_of_def)
    show ?thesis
      unfolding add_def e ledger_of_def
      by (rule exI, intro conjI, rule refl, simp add: cp1,
          rule exI [of _ "rotate1 Cs"], simp add: cp1 w t c ms mset_rotate1_eq)
  next
    case checkpoint
    then have nt: "\<not> isinstance_Target ob" using ncp by simp
    have 1: "callback ?s1 = map fst ([] @ (ob, sch) # (rev ?W @ Cs) @ ?T)"
      using nt cb by (simp add: insert_observer_def)
    have 2: "scheduler ?s1 = map snd ([] @ (ob, sch) # (rev ?W @ Cs) @ ?T)"
      using nt sc by (simp add: insert_observer_def)
    have 3: "writer_checkpoint ?s1 = fst (ob, sch)" using checkpoint cp1 by simp
    have 4: "fst (ob, sch) \<notin> fst ` set []" by simp
    have 5: "\<forall>x \<in> set ([] @ (ob, sch) # (rev ?W @ Cs)). \<not> isinstance_Target (fst x)"
      using W Cs ncp nt by auto
    have e: "enforce_checkpoint ?s1 = Inr (?s1\<lparr>callback := map fst ([] @ (rev ?W @ Cs) @ (ob, sch) # ?T),
          scheduler := map snd ([] @ (rev ?W @ Cs) @ (ob, sch) # ?T)\<rparr>)"
      by (rule enforce_checkpoint_present [OF 1 2 3 4 5 T])
    have w: "writers_of ?cp (regs @ [(ob, sch)]) = ?W"
      using checkpoint by (simp add: writers_of_def)
    have t: "targets_of (regs @ [(ob, sch)]) = ?T" using nt by (simp add: targets_of_def)
    have c: "checkpoints_of ?cp (regs @ [(ob, sch)]) = checkpoints_of ?cp regs @ [(ob, sch)]"
      using checkpoint by (simp add: checkpoints_of_def)
    show ?thesis
      unfolding add_def e ledger_of_def
      by (rule exI, intro conjI, rule refl, simp add: cp1,
          rule exI [of _ "Cs @ [(ob, sch)]"], simp add: cp1 w t c ms)
  qed
qed

lemma ledger_of_add_all:
  "ledger_of s regs0 \<Longrightarrow> \<not> isinstance_Target (writer_checkpoint s) \<Longrightarrow>
   \<exists>s'. add_all regs s = Inr s' \<and> writer_checkpoint s' = writer_checkpoint s
        \<and> ledger_of s' (regs0 @ regs)"
proof (induction regs arbitrary: s regs0)
  case Nil
  then show ?case by simp
next
  case (Cons r regs)
  obtain ob sch where r: "r = (ob, sch)" by (cases r)
  from add_ledger_of [OF Cons.prems, of ob sch] obtain s1 where
    s1: "add ob sch s = Inr s1" "writer_checkpoint s1 = writer_checkpoint s"
        "ledger_of s1 (regs0 @ [(ob, sch)])" by blast
  from Cons.IH [OF s1(3)] Cons.prems(2) s1(2) obtain s' where
    "add_all regs s1 = Inr s'" "writer_checkpoint s' = writer_checkpoint s1"
    "ledger_of s' ((regs0 @ [(ob, sch)]) @ regs)" by auto
  then show ?case using s1 r by simp
qed

lemma mset_by_role:
  "\<not> isinstance_Target cp \<Longrightarrow>
   mset (writers_of cp regs) + mset (checkpoints_of cp regs) + mset (targets_of regs) = mset regs"
  by (induction regs) (auto simp: writers_of_def checkpoints_of_def targets_of_def)

lemma ledger_of_empty: "callback s = [] \<Longrightarrow> scheduler s = [] \<Longrightarrow> ledger_of s []"
  by (simp add: ledger_of_def writers_of_def checkpoints_of_def targets_of_def)

lemma ledger_of_shape:
  assumes inv: "ledger_of s regs" and ncp: "\<not> isinstance_Target (writer_checkpoint s)"
  shows "length (callback s) = length (scheduler s)"
    and "mset (zip (callback s) (scheduler s)) = mset regs"
    and "targeters s = map fst (filter (\<lambda>r. isinstance_Target (fst r)) regs)"
    and "callback s = non_targeters s @ targeters s"
    and "filter (\<lambda>r. isinstance_Target (fst r)) (zip (callback s) (scheduler s))
         = filter (\<lambda>r. isinstance_Target (fst r)) regs"
    and "filter (\<lambda>r. \<not> isinstance_Target (fst r) \<and> fst r \<noteq> writer_checkpoint s)
           (zip (callback s) (scheduler s))
         = rev (filter (\<lambda>r. \<not> isinstance_Target (fst r) \<and> fst r \<noteq> writer_checkpoint s) regs)"
    and "writer_checkpoint s \<in> set (callback s) \<Longrightarrow>
           \<exists>pre. callback s = pre @ writer_checkpoint s # targeters s
               \<and> non_targeters s = pre @ [writer_checkpoint s]"
proof -
  let ?cp = "writer_checkpoint s"
  let ?W = "writers_of ?cp regs" and ?T = "targets_of regs"
  from inv obtain Cs where
    cb: "callback s = map fst (rev ?W @ Cs @ ?T)" and
    sc: "scheduler s = map snd (rev ?W @ Cs @ ?T)" and
    ms: "mset Cs = mset (checkpoints_of ?cp regs)"
    unfolding ledger_of_def by blast
  have Cs: "\<forall>x \<in> set Cs. fst x = ?cp"
    using ms by (metis (mono_tags, lifting) checkpoints_of_def mem_Collect_eq set_filter set_mset_mset)
  have z: "zip (callback s) (scheduler s) = rev ?W @ Cs @ ?T"
    unfolding cb sc by (simp only: zip_map_fst_snd)
  show "length (callback s) = length (scheduler s)" by (simp add: cb sc)
  show "mset (zip (callback s) (scheduler s)) = mset regs"
    unfolding z using mset_by_role [OF ncp, of regs] ms by (simp add: add.assoc)
  have fW: "filter isinstance_Target (map fst (rev ?W)) = []"
    by (intro filter_False) (auto simp: writers_of_def)
  have fC: "filter isinstance_Target (map fst Cs) = []"
    using Cs ncp by (intro filter_False) auto
  have fT: "filter isinstance_Target (map fst ?T) = map fst ?T"
    by (intro filter_True) (auto simp: targets_of_def)
  show tg: "targeters s = map fst (filter (\<lambda>r. isinstance_Target (fst r)) regs)"
    unfolding targeters_def cb using fW fC fT by (simp add: targets_of_def)
  have nW: "filter (\<lambda>ob. \<not> isinstance_Target ob) (map fst (rev ?W)) = map fst (rev ?W)"
    by (intro filter_True) (auto simp: writers_of_def)
  have nC: "filter (\<lambda>ob. \<not> isinstance_Target ob) (map fst Cs) = map fst Cs"
    using Cs ncp by (intro filter_True) auto
  have nT: "filter (\<lambda>ob. \<not> isinstance_Target ob) (map fst ?T) = []"
    by (intro filter_False) (auto simp: targets_of_def)
  have nt: "non_targeters s = map fst (rev ?W @ Cs)"
    unfolding non_targeters_def cb using nW nC nT by simp
  show "callback s = non_targeters s @ targeters s"
    unfolding nt tg by (simp add: cb targets_of_def)
  have pW: "filter (\<lambda>r. isinstance_Target (fst r)) (rev ?W) = []"
    by (intro filter_False) (auto simp: writers_of_def)
  have pC: "filter (\<lambda>r. isinstance_Target (fst r)) Cs = []"
    using Cs ncp by (intro filter_False) auto
  have pT: "filter (\<lambda>r. isinstance_Target (fst r)) ?T = ?T"
    by (intro filter_True) (auto simp: targets_of_def)
  show "filter (\<lambda>r. isinstance_Target (fst r)) (zip (callback s) (scheduler s))
         = filter (\<lambda>r. isinstance_Target (fst r)) regs"
    unfolding z using pW pC pT by (simp add: targets_of_def)
  have qW: "filter (\<lambda>r. \<not> isinstance_Target (fst r) \<and> fst r \<noteq> ?cp) (rev ?W) = rev ?W"
    by (intro filter_True) (auto simp: writers_of_def)
  have qC: "filter (\<lambda>r. \<not> isinstance_Target (fst r) \<and> fst r \<noteq> ?cp) Cs = []"
    using Cs by (intro filter_False) auto
  have qT: "filter (\<lambda>r. \<not> isinstance_Target (fst r) \<and> fst r \<noteq> ?cp) ?T = []"
    by (intro filter_False) (auto simp: targets_of_def)
  show "filter (\<lambda>r. \<not> isinstance_Target (fst r) \<and> fst r \<noteq> ?cp) (zip (callback s) (scheduler s))
         = rev (filter (\<lambda>r. \<not> isinstance_Target (fst r) \<and> fst r \<noteq> ?cp) regs)"
    unfolding z using qW qC qT by (simp add: writers_of_def)
  show "\<exists>pre. callback s = pre @ ?cp # targeters s \<and> non_targeters s = pre @ [?cp]"
    if "?cp \<in> set (callback s)"
  proof -
    have "?cp \<notin> fst ` set (rev ?W)" by (auto simp: writers_of_def)
    moreover have "?cp \<notin> fst ` set ?T" using ncp by (auto simp: targets_of_def)
    ultimately have "Cs \<noteq> []" using that unfolding cb by auto
    then obtain Cs0 c where c: "Cs = Cs0 @ [c]" by (metis rev_exhaust)
    then have "fst c = ?cp" using Cs by simp
    then have "callback s = map fst (rev ?W @ Cs0) @ ?cp # targeters s
             \<and> non_targeters s = map fst (rev ?W @ Cs0) @ [?cp]"
      unfolding nt tg cb c by (simp add: targets_of_def)
    then show ?thesis by blast
  qed
qed

lemma ledger_of_head:
  assumes "ledger_of s (regs @ [(ob, sch)])" and "\<not> isinstance_Target ob"
    and "ob \<noteq> writer_checkpoint s"
  shows "hd (callback s) = ob \<and> hd (scheduler s) = sch"
proof -
  have "writers_of (writer_checkpoint s) (regs @ [(ob, sch)])
      = writers_of (writer_checkpoint s) regs @ [(ob, sch)]"
    using assms(2,3) by (simp add: writers_of_def)
  then show ?thesis using assms(1) unfolding ledger_of_def by auto
qed

text \<open>
  Claim C2.  Starting from the empty lists of a new simulation whose checkpoint writer is
  not a Target, any sequence of \<^verbatim>\<open>add\<close> calls succeeds and leaves a ledger where: the two
  lists have the same length and pair every observer with the scheduler it was registered
  with; the Targets are the tail of \<^verbatim>\<open>_callback\<close>, in the order they were registered, with
  their schedulers; the writers other than the checkpoint writer come newest first; the
  checkpoint writer, when registered, is the last entry before the Targets; and one more
  \<^verbatim>\<open>add\<close> of such a writer puts it, with its scheduler, at the head.
\<close>

theorem add_all_ledger:
  assumes "callback s = []" and "scheduler s = []"
    and "\<not> isinstance_Target (writer_checkpoint s)"
  shows "\<exists>s'. add_all regs s = Inr s'
     \<and> length (callback s') = length (scheduler s')
     \<and> mset (zip (callback s') (scheduler s')) = mset regs
     \<and> callback s' = non_targeters s' @ targeters s'
     \<and> targeters s' = map fst (filter (\<lambda>r. isinstance_Target (fst r)) regs)
     \<and> filter (\<lambda>r. isinstance_Target (fst r)) (zip (callback s') (scheduler s'))
         = filter (\<lambda>r. isinstance_Target (fst r)) regs
     \<and> filter (\<lambda>r. \<not> isinstance_Target (fst r) \<and> fst r \<noteq> writer_checkpoint s)
           (zip (callback s') (scheduler s'))
         = rev (filter (\<lambda>r. \<not> isinstance_Target (fst r) \<and> fst r \<noteq> writer_checkpoint s) regs)
     \<and> (writer_checkpoint s \<in> set (callback s') \<longrightarrow>
           (\<exists>pre. callback s' = pre @ writer_checkpoint s # targeters s'
                \<and> non_targeters s' = pre @ [writer_checkpoint s]))
     \<and> (\<forall>ob sch. \<not> isinstance_Target ob \<and> ob \<noteq> writer_checkpoint s \<longrightarrow>
           (\<exists>s''. add ob sch s' = Inr s'' \<and> hd (callback s'') = ob \<and> hd (scheduler s'') = sch))"
proof -
  have "ledger_of s []" using assms(1,2) by (rule ledger_of_empty)
  from ledger_of_add_all [OF this assms(3), of regs] obtain s' where
    s': "add_all regs s = Inr s'" and cp: "writer_checkpoint s' = writer_checkpoint s"
    and inv: "ledger_of s' regs" by auto
  have ncp: "\<not> isinstance_Target (writer_checkpoint s')" using cp assms(3) by simp
  note shape = ledger_of_shape [OF inv ncp]
  have head: "\<exists>s''. add ob sch s' = Inr s'' \<and> hd (callback s'') = ob \<and> hd (scheduler s'') = sch"
    if "\<not> isinstance_Target ob \<and> ob \<noteq> writer_checkpoint s" for ob sch
  proof -
    from add_ledger_of [OF inv ncp, of ob sch] obtain s'' where
      a: "add ob sch s' = Inr s''" and b: "writer_checkpoint s'' = writer_checkpoint s'"
      and c: "ledger_of s'' (regs @ [(ob, sch)])" by blast
    from ledger_of_head [OF c] that b cp a show ?thesis by simp
  qed
  show ?thesis
    apply (rule exI [of _ s'])
    apply (intro conjI)
            apply (rule s')
           apply (rule shape(1))
          apply (rule shape(2))
         apply (rule shape(4))
        apply (rule shape(3))
       apply (rule shape(5))
    using shape(6) cp apply simp
    using shape(7) cp apply simp
    using head apply blast
    done
qed

theorem add_all_ledger_witness:
  "callback (Simulation_attributes (base_env clock) default_config) = []
   \<and> scheduler (Simulation_attributes (base_env clock) default_config) = []
   \<and> \<not> isinstance_Target (writer_checkpoint (Simulation_attributes (base_env clock) default_config))
   \<and> (\<exists>s'. add_all example_regs (Simulation_attributes (base_env clock) default_config) = Inr s'
          \<and> callback s' = non_targeters s' @ targeters s'
          \<and> targeters s' = [Observer 3 (TargetSteps 100), Observer 8 (TargetWallTime 0)])"
proof -
  let ?s = "Simulation_attributes (base_env clock) default_config"
  have 1: "callback ?s = []" and 2: "scheduler ?s = []"
    and 3: "\<not> isinstance_Target (writer_checkpoint ?s)"
    by (simp_all add: Simulation_attributes_def)
  from add_all_ledger [OF 1 2 3, of example_regs] obtain s' where
    "add_all example_regs ?s = Inr s'" "callback s' = non_targeters s' @ targeters s'"
    "targeters s' = map fst (filter (\<lambda>r. isinstance_Target (fst r)) example_regs)"
    by blast
  moreover have "map fst (filter (\<lambda>r. isinstance_Target (fst r)) example_regs)
      = [Observer 3 (TargetSteps 100), Observer 8 (TargetWallTime 0)]"
    by (simp add: example_regs_def)
  ultimately show ?thesis using 1 2 3 by auto
qed

section \<open>The loop body\<close>

lemma all_steps_Inr:
  "all_steps scs this = Inr ns \<Longrightarrow>
   length ns = length scs \<and> (\<forall>i < length scs. Scheduler_next (scs ! i) this = Inr (ns ! i))"
proof (induction scs arbitrary: ns)
  case Nil
  then show ?case by simp
next
  case (Cons sch rest)
  from Cons.prems obtain n ms where n: "Scheduler_next sch this = Inr n"
    and ms: "all_steps rest this = Inr ms" and ns: "ns = n # ms"
    by (auto split: sum.splits)
  from Cons.IH [OF ms] have ih: "length ms = length rest"
    "\<forall>i < length rest. Scheduler_next (rest ! i) this = Inr (ms ! i)" by simp_all
  show ?case
  proof (intro conjI allI impI)
    show "length ns = length (sch # rest)" using ih ns by simp
    fix i assume "i < length (sch # rest)"
    then show "Scheduler_next ((sch # rest) ! i) this = Inr (ns ! i)"
      using n ih ns by (cases i) simp_all
  qed
qed

lemma py_min_Min: "ns \<noteq> [] \<Longrightarrow> py_min ns = Inr (Min (set ns))"
proof (cases ns)
  case Nil
  assume "ns \<noteq> []"
  with Nil show ?thesis by simp
next
  case (Cons a list)
  have "Min (set (a # list)) = fold min list a" by (rule Min.set_eq_fold)
  then show ?thesis using Cons by simp
qed

lemma next_obs_nth:
  "\<forall>i \<in> set ids. i < length cbs \<Longrightarrow> next_obs cbs ids = Inr (map ((!) cbs) ids)"
  by (induction ids) simp_all

lemma zip_by_index:
  "length xs = length ys \<Longrightarrow> zip xs ys = map (\<lambda>i. (xs ! i, ys ! i)) [0..<length ys]"
  by (rule nth_equalityI) simp_all

lemma due_by_index:
  assumes "length cbs = length ns"
  shows "map ((!) cbs) (next_step_ids ns m) = map fst (filter (\<lambda>r. snd r = m) (zip cbs ns))"
proof -
  have "filter (\<lambda>r. snd r = m) (zip cbs ns)
      = map (\<lambda>i. (cbs ! i, ns ! i)) (filter (\<lambda>i. ns ! i = m) [0..<length ns])"
    unfolding zip_by_index [OF assms] filter_map by (simp add: comp_def)
  then show ?thesis by (simp add: next_step_ids_def comp_def)
qed

lemma Speedometer_first_effect:
  "steps (snd (Speedometer_first ev ob s)) = steps s
   \<and> trace (snd (Speedometer_first ev ob s)) = trace s
   \<and> only_effects s (snd (Speedometer_first ev ob s))"
  by (simp add: Speedometer_first_def only_effects_def split: option.splits sum.splits)

lemma wall_time_per_step_particle_effect:
  "snd (wall_time_per_step_particle ev s) = s\<lparr>ticks := Suc (ticks s)\<rparr>"
  by (simp add: wall_time_per_step_particle_def wall_time_per_step_def elapsed_wall_time_def
      split: option.splits)

lemma Speedometer_later_effect:
  "steps (snd (Speedometer_later ev ob sp s)) = steps s
   \<and> trace (snd (Speedometer_later ev ob sp s)) = trace s
   \<and> only_effects s (snd (Speedometer_later ev ob sp s))"
proof (cases "wall_time_per_step_particle ev (s\<lparr>ticks := Suc (ticks s)\<rparr>)")
  case (Pair r s2)
  then have "s2 = s\<lparr>ticks := Suc (Suc (ticks s))\<rparr>"
    using wall_time_per_step_particle_effect [of ev "s\<lparr>ticks := Suc (ticks s)\<rparr>"] by simp
  then show ?thesis using Pair
    by (simp add: Speedometer_later_def only_effects_def Let_def split: sum.splits)
qed

lemma Speedometer_call_effect:
  "steps (snd (Speedometer_call ev ob s)) = steps s
   \<and> trace (snd (Speedometer_call ev ob s)) = trace s
   \<and> only_effects s (snd (Speedometer_call ev ob s))"
  using Speedometer_first_effect Speedometer_later_effect
  by (simp add: Speedometer_call_def split: option.splits)

lemma call_observer_effect:
  "steps (snd (call_observer ev ob s)) = steps s
   \<and> trace (snd (call_observer ev ob s)) = trace s @ [Called ob (steps s)]"
  by (cases "cls ob")
     (simp_all add: call_observer_def elapsed_wall_time_def Let_def Speedometer_call_effect
        split: prod.splits)

lemma notify_effect:
  "\<exists>k \<le> length obs.
      trace (snd (notify ev obs s)) = trace s @ map (\<lambda>ob. Called ob (steps s)) (take k obs)
    \<and> (fst (notify ev obs s) = None \<longrightarrow> k = length obs)
    \<and> steps (snd (notify ev obs s)) = steps s"
proof (induction obs arbitrary: s)
  case Nil
  then show ?case by simp
next
  case (Cons ob obs)
  obtain r s1 where c: "call_observer ev ob s = (r, s1)" by (cases "call_observer ev ob s")
  have e1: "steps s1 = steps s" and e2: "trace s1 = trace s @ [Called ob (steps s)]"
    using call_observer_effect [of ev ob s] c by simp_all
  show ?case
  proof (cases r)
    case None
    have n: "notify ev (ob # obs) s = notify ev obs s1" using c None by simp
    from Cons.IH [of s1] obtain k where k1: "k \<le> length obs"
      and k2: "trace (snd (notify ev obs s1)) = trace s1 @ map (\<lambda>ob. Called ob (steps s1)) (take k obs)"
      and k3: "fst (notify ev obs s1) = None \<longrightarrow> k = length obs"
      and k4: "steps (snd (notify ev obs s1)) = steps s1" by (elim exE conjE)
    have a: "Suc k \<le> length (ob # obs)" using k1 by simp
    have b: "trace (snd (notify ev (ob # obs) s))
        = trace s @ map (\<lambda>ob. Called ob (steps s)) (take (Suc k) (ob # obs))"
      unfolding n k2 e2 e1 by simp
    have d: "fst (notify ev (ob # obs) s) = None \<longrightarrow> Suc k = length (ob # obs)"
      unfolding n using k3 by simp
    have f: "steps (snd (notify ev (ob # obs) s)) = steps s"
      unfolding n k4 e1 ..
    from a b d f show ?thesis by (intro exI [of _ "Suc k"] conjI)
  next
    case (Some e)
    have n: "notify ev (ob # obs) s = (Some e, s1)" using c Some by simp
    have a: "Suc 0 \<le> length (ob # obs)" by simp
    have b: "trace (snd (notify ev (ob # obs) s))
        = trace s @ map (\<lambda>ob. Called ob (steps s)) (take (Suc 0) (ob # obs))"
      unfolding n by (simp add: e2)
    have d: "fst (notify ev (ob # obs) s) = None \<longrightarrow> Suc 0 = length (ob # obs)"
      unfolding n by simp
    have f: "steps (snd (notify ev (ob # obs) s)) = steps s"
      unfolding n by (simp add: e1)
    from a b d f show ?thesis by (intro exI [of _ "Suc 0"] conjI)
  qed
qed

lemma loop_iteration_effect:
  assumes ns: "all_steps (scheduler s) (steps s) = Inr ns"
    and ne: "scheduler s \<noteq> []"
    and len: "length (callback s) = length (scheduler s)"
    and nx: "next_step = Min (set ns)"
    and due: "due = map fst (filter (\<lambda>r. snd r = next_step) (zip (callback s) ns))"
  shows "length ns = length (scheduler s)
     \<and> (\<forall>i < length (scheduler s). Scheduler_next (scheduler s ! i) (steps s) = Inr (ns ! i)
            \<and> next_step \<le> ns ! i)
     \<and> loop_iteration ev s =
         (case run_until ev next_step s of
            (Some e, s1) \<Rightarrow> (Some e, s1)
          | (None, s1) \<Rightarrow> notify ev due (s1\<lparr>steps := next_step\<rparr>))
     \<and> (fst (run_until ev next_step s) = None \<longrightarrow>
          (\<exists>k \<le> length due.
              trace (snd (loop_iteration ev s))
                = trace s @ RunUntil next_step # map (\<lambda>ob. Called ob next_step) (take k due)
            \<and> (fst (loop_iteration ev s) = None \<longrightarrow> k = length due)
            \<and> steps (snd (loop_iteration ev s)) = next_step))"
proof -
  from all_steps_Inr [OF ns] have l: "length ns = length (scheduler s)"
    and nth: "\<forall>i < length (scheduler s). Scheduler_next (scheduler s ! i) (steps s) = Inr (ns ! i)"
    by simp_all
  have nne: "ns \<noteq> []" using l ne by auto
  have mn: "py_min ns = Inr next_step" using py_min_Min [OF nne] nx by simp
  have le: "\<forall>i < length (scheduler s). next_step \<le> ns ! i"
    using l nx by simp
  have ids: "\<forall>i \<in> set (next_step_ids ns next_step). i < length (callback s)"
    using l len by (simp add: next_step_ids_def)
  have ob: "next_obs (callback s) (next_step_ids ns next_step) = Inr due"
    using next_obs_nth [OF ids] due_by_index [of "callback s" ns next_step] l len due by simp
  have it: "loop_iteration ev s =
         (case run_until ev next_step s of
            (Some e, s1) \<Rightarrow> (Some e, s1)
          | (None, s1) \<Rightarrow> notify ev due (s1\<lparr>steps := next_step\<rparr>))"
    by (simp add: loop_iteration_def ns mn ob)
  have tr: "\<exists>k \<le> length due.
              trace (snd (loop_iteration ev s))
                = trace s @ RunUntil next_step # map (\<lambda>ob. Called ob next_step) (take k due)
            \<and> (fst (loop_iteration ev s) = None \<longrightarrow> k = length due)
            \<and> steps (snd (loop_iteration ev s)) = next_step"
    if "fst (run_until ev next_step s) = None"
  proof -
    let ?s1 = "s\<lparr>trace := trace s @ [RunUntil next_step]\<rparr>"
    have ru: "run_until ev next_step s = (None, ?s1)"
      using that by (simp add: run_until_def Let_def)
    have "loop_iteration ev s = notify ev due (?s1\<lparr>steps := next_step\<rparr>)"
      using it ru by simp
    then show ?thesis
      using notify_effect [of due ev "?s1\<lparr>steps := next_step\<rparr>"] by simp
  qed
  have ix: "\<forall>i < length (scheduler s). Scheduler_next (scheduler s ! i) (steps s) = Inr (ns ! i)
            \<and> next_step \<le> ns ! i"
    using nth le by simp
  from l ix it tr show ?thesis by (intro conjI impI)
qed



section \<open>Termination\<close>

lemma only_effects_refl: "only_effects s s"
  by (simp add: only_effects_def)

lemma only_effects_trans: "only_effects s s1 \<Longrightarrow> only_effects s1 s2 \<Longrightarrow> only_effects s s2"
  by (simp add: only_effects_def)

lemma only_effects_fields:
  assumes "only_effects s s'"
  shows "initial_steps s' = initial_steps s" "particles s' = particles s"
    "writer_checkpoint s' = writer_checkpoint s" "start_time s' = start_time s"
    "callback s' = callback s" "scheduler s' = scheduler s" "restart s' = restart s"
    "target_steps s' = target_steps s" "output_path s' = output_path s"
  using assms by (simp_all add: only_effects_def)

lemma only_effects_call_observer: "only_effects s (snd (call_observer ev ob s))"
proof (cases "cls ob")
  case (Speedometer what)
  have "only_effects (s\<lparr>trace := trace s @ [Called ob (steps s)]\<rparr>)
          (snd (Speedometer_call ev ob (s\<lparr>trace := trace s @ [Called ob (steps s)]\<rparr>)))"
    using Speedometer_call_effect by blast
  then show ?thesis using Speedometer
    by (simp add: call_observer_def Let_def only_effects_def)
qed (simp_all add: only_effects_def call_observer_def elapsed_wall_time_def Let_def split: prod.splits)

lemma only_effects_notify: "only_effects s (snd (notify ev obs s))"
proof (induction obs arbitrary: s)
  case Nil
  show ?case by (simp add: only_effects_refl)
next
  case (Cons ob obs)
  obtain r s1 where c: "call_observer ev ob s = (r, s1)" by (cases "call_observer ev ob s")
  have 1: "only_effects s s1" using only_effects_call_observer [of s ev ob] c by simp
  show ?case
  proof (cases r)
    case None
    then have "notify ev (ob # obs) s = notify ev obs s1" using c by simp
    then show ?thesis using only_effects_trans [OF 1 Cons.IH [of s1]] by simp
  next
    case (Some e)
    then have "notify ev (ob # obs) s = (Some e, s1)" using c by simp
    then show ?thesis using 1 by simp
  qed
qed

lemma only_effects_log_info: "only_effects s (log_info l s)"
  by (simp add: only_effects_def log_info_def)

lemma only_effects_steps: "only_effects s (s\<lparr>steps := n\<rparr>)"
  by (simp add: only_effects_def)

lemma only_effects_run_until: "only_effects s (snd (run_until ev n s))"
  by (simp add: only_effects_def run_until_def Let_def)

lemma only_effects_loop_iteration: "only_effects s (snd (loop_iteration ev s))"
proof (cases "all_steps (scheduler s) (steps s)")
  case (Inl e)
  then show ?thesis by (simp add: loop_iteration_def only_effects_refl)
next
  case ns: (Inr ns)
  show ?thesis
  proof (cases "py_min ns")
    case (Inl e)
    then show ?thesis using ns by (simp add: loop_iteration_def only_effects_refl)
  next
    case mn: (Inr n)
    show ?thesis
    proof (cases "next_obs (callback s) (next_step_ids ns n)")
      case (Inl e)
      then show ?thesis using ns mn by (simp add: loop_iteration_def only_effects_refl)
    next
      case ob: (Inr obs)
      obtain r s1 where ru: "run_until ev n s = (r, s1)" by (cases "run_until ev n s")
      have 1: "only_effects s s1" using only_effects_run_until [of s ev n] ru by simp
      show ?thesis
      proof (cases r)
        case (Some e)
        then show ?thesis using ns mn ob ru 1 by (simp add: loop_iteration_def)
      next
        case None
        have "only_effects s (snd (notify ev obs (s1\<lparr>steps := n\<rparr>)))"
          using only_effects_trans [OF only_effects_trans [OF 1 only_effects_steps]
              only_effects_notify] .
        then show ?thesis using ns mn ob ru None by (simp add: loop_iteration_def)
      qed
    qed
  qed
qed

lemma only_effects_main_loop:
  "main_loop fuel ev s = Some (e, s') \<Longrightarrow> only_effects s s'"
proof (induction fuel arbitrary: s)
  case 0
  then show ?case by simp
next
  case (Suc n)
  obtain r s1 where l: "loop_iteration ev s = (r, s1)" by (cases "loop_iteration ev s")
  have 1: "only_effects s s1" using only_effects_loop_iteration [of s ev] l by simp
  show ?case
  proof (cases r)
    case None
    then have "main_loop n ev s1 = Some (e, s')" using Suc.prems l by simp
    from only_effects_trans [OF 1 Suc.IH [OF this]] show ?thesis .
  next
    case (Some x)
    then have "s' = s1" using Suc.prems l by simp
    then show ?thesis using 1 by simp
  qed
qed

lemma only_effects_run_try:
  assumes "run_try fuel ev s = Some (e, s')"
  shows "only_effects s s'"
proof -
  obtain r1 s1 where n1: "notify ev (targeters s) s = (r1, s1)"
    by (cases "notify ev (targeters s) s")
  have 1: "only_effects s s1" using only_effects_notify [of s ev "targeters s"] n1 by simp
  show ?thesis
  proof (cases r1)
    case (Some x)
    then have "s' = s1" using assms n1 by (simp add: run_try_def)
    then show ?thesis using 1 by simp
  next
    case None
    obtain r2 s2 where n2: "(if \<not> restart s1 then notify ev (non_targeters s1) s1 else (None, s1)) = (r2, s2)"
      by (cases "if \<not> restart s1 then notify ev (non_targeters s1) s1 else (None, s1)")
    have 2: "only_effects s1 s2"
      using only_effects_notify [of s1 ev "non_targeters s1"] n2 only_effects_refl [of s1]
      by (auto split: if_splits)
    show ?thesis
    proof (cases r2)
      case (Some x)
      then have "s' = s2" using assms n1 n2 None by (simp add: run_try_def)
      then show ?thesis using only_effects_trans [OF 1 2] by simp
    next
      case None2: None
      have "main_loop fuel ev (log_info Blank (log_info (StartingAt (steps s2)) s2)) = Some (e, s')"
        using assms n1 n2 None None2 by (simp add: run_try_def)
      from only_effects_main_loop [OF this]
      have "only_effects (log_info Blank (log_info (StartingAt (steps s2)) s2)) s'" .
      with only_effects_trans [OF only_effects_log_info only_effects_log_info]
      have "only_effects s2 s'" using only_effects_trans by blast
      with 1 2 show ?thesis using only_effects_trans by blast
    qed
  qed
qed

lemma only_effects_report_observers:
  "only_effects s (snd (report_observers regs s)) \<and> steps (snd (report_observers regs s)) = steps s"
proof (induction regs arbitrary: s)
  case Nil
  show ?case by (simp add: only_effects_refl)
next
  case (Cons r regs)
  obtain f sch where r: "r = (f, sch)" by (cases r)
  have l: "only_effects s (log_info x s) \<and> steps (log_info x s) = steps s" for x
    by (simp add: only_effects_log_info) (simp add: log_info_def)
  show ?case
    unfolding r
    using Cons.IH l only_effects_trans
    by (auto simp: only_effects_refl split: sum.splits) blast+
qed

lemma only_effects_report: "only_effects s (snd (report s)) \<and> steps (snd (report s)) = steps s"
proof -
  let ?s4 = "log_info Version (log_info Blank (log_info Title (log_info Blank s)))"
  have "only_effects s ?s4"
    by (meson only_effects_log_info only_effects_trans)
  moreover have "steps ?s4 = steps s" by (simp add: log_info_def)
  ultimately show ?thesis
    unfolding report_def using only_effects_report_observers [of ?s4] only_effects_trans by metis
qed

lemma run_begin_steps:
  "initial_steps (run_begin tgt s) = steps s \<and> steps (run_begin tgt s) = steps s"
  by (cases tgt) (simp_all add: run_begin_def Let_def log_info_def)

lemma run_begin_fields:
  "initial_steps (run_begin tgt s) = steps s" "steps (run_begin tgt s) = steps s"
  "writer_checkpoint (run_begin tgt s) = writer_checkpoint s"
  "particles (run_begin tgt s) = particles s"
  "callback (run_begin tgt s) = callback s" "scheduler (run_begin tgt s) = scheduler s"
  by (cases tgt; simp add: run_begin_def Let_def log_info_def)+

lemma report_end_effect:
  assumes "initial_steps s \<noteq> steps s"
  shows "\<exists>t lines.
      trace (snd (report_end ev s))
        = trace s @ [LogInfo (FinalRmsd (rmsd ev (steps s))), LogInfo (WallTime t)] @ lines
    \<and> (case particles s of
          None \<Rightarrow> fst (report_end ev s) = Some AttributeError \<and> lines = []
        | Some n \<Rightarrow>
            if n = 0 then fst (report_end ev s) = Some ZeroDivisionError \<and> lines = []
            else fst (report_end ev s) = None \<and> (\<exists>w. lines = [LogInfo (TSP w), LogInfo EndedOn]))"
proof (cases "particles s")
  case None
  show ?thesis
    by (rule exI [of _ "time ev (ticks s) - start_time s"], rule exI [of _ "[]"])
       (use assms None in \<open>simp add: report_end_def wall_time_per_step_particle_def
          wall_time_per_step_def elapsed_wall_time_def log_info_def Let_def\<close>)
next
  case (Some n)
  show ?thesis
  proof (cases "n = 0")
    case True
    show ?thesis
      by (rule exI [of _ "time ev (ticks s) - start_time s"], rule exI [of _ "[]"])
         (use assms Some True in \<open>simp add: report_end_def wall_time_per_step_particle_def
            wall_time_per_step_def elapsed_wall_time_def log_info_def Let_def\<close>)
  next
    case False
    show ?thesis
      by (rule exI [of _ "time ev (ticks s) - start_time s"],
          rule exI [of _ "[LogInfo (TSP ((time ev (Suc (ticks s)) - start_time s)
                 / of_int (steps s - initial_steps s) / of_nat n)), LogInfo EndedOn]"])
         (use assms Some False in \<open>simp add: report_end_def wall_time_per_step_particle_def
            wall_time_per_step_def elapsed_wall_time_def log_info_def Let_def\<close>)
  qed
qed

lemma run_reaches_handlers:
  assumes rep: "report (run_begin tgt s) = (None, s0)"
    and body: "run_try fuel ev s0 = Some (e, s1)"
  shows "run fuel ev tgt s = Some (run_except ev e s1)"
    and "initial_steps s1 = steps s" and "writer_checkpoint s1 = writer_checkpoint s"
    and "particles s1 = particles s"
proof -
  show "run fuel ev tgt s = Some (run_except ev e s1)"
    using rep body by (simp add: run_def run_protected_def)
  have 0: "only_effects (run_begin tgt s) s0"
    using only_effects_report [of "run_begin tgt s"] rep by simp
  have 1: "only_effects s0 s1" using only_effects_run_try [OF body] .
  note f = only_effects_fields [OF only_effects_trans [OF 0 1]]
  show "initial_steps s1 = steps s" using f(1) run_begin_fields(1) by simp
  show "writer_checkpoint s1 = writer_checkpoint s" using f(3) run_begin_fields(3) by simp
  show "particles s1 = particles s" using f(2) run_begin_fields(4) by simp
qed

text \<open>
  Claim C1.  When the body of the \<^verbatim>\<open>try\<close> statement of \<^verbatim>\<open>run\<close> raises \<^verbatim>\<open>SimulationEnd\<close>,
  \<^verbatim>\<open>run\<close> returns a result (the handler is entered, once) and the first thing done is the
  call of the checkpoint writer, whatever its schedule.  When that call returns, no
  \<^verbatim>\<open>SimulationEnd\<close> leaves \<^verbatim>\<open>run\<close> and the message is logged once; the end-of-run summary
  follows if and only if \<^verbatim>\<open>steps\<close> differs from \<^verbatim>\<open>initial_steps\<close>, the value \<^verbatim>\<open>steps\<close> had when
  \<^verbatim>\<open>run\<close> was called, and the closing line ends the trace.  The summary is complete, and
  \<^verbatim>\<open>run\<close> returns normally, when the simulation has a system with at least one particle; in
  the base class, which has no system, its third line raises AttributeError.
\<close>

theorem run_SimulationEnd:
  assumes rep: "report (run_begin tgt s) = (None, s0)"
    and body: "run_try fuel ev s0 = Some (SimulationEnd m, s1)"
  shows "\<exists>r s2. run fuel ev tgt s = Some (r, s2)
     \<and> initial_steps s1 = steps s
     \<and> take (Suc (length (trace s1))) (trace s2)
         = trace s1 @ [Called (writer_checkpoint s) (steps s1)]
     \<and> (fst (call_observer ev (writer_checkpoint s) s1) = None \<longrightarrow>
          (\<forall>m'. r \<noteq> Some (SimulationEnd m'))
        \<and> (steps s1 = steps s \<longrightarrow>
              r = None
            \<and> trace s2 = trace s1 @ [Called (writer_checkpoint s) (steps s1),
                                      LogInfo (EndMessage m), LogInfo Goodbye])
        \<and> (steps s1 \<noteq> steps s \<longrightarrow>
              (\<exists>t lines.
                  trace s2 = trace s1 @ [Called (writer_checkpoint s) (steps s1),
                                         LogInfo (EndMessage m),
                                         LogInfo (FinalRmsd (rmsd ev (steps s1))),
                                         LogInfo (WallTime t)] @ lines @ [LogInfo Goodbye]
                \<and> (case particles s of
                      None \<Rightarrow> r = Some AttributeError \<and> lines = []
                    | Some n \<Rightarrow>
                        if n = 0 then r = Some ZeroDivisionError \<and> lines = []
                        else r = None \<and> (\<exists>w. lines = [LogInfo (TSP w), LogInfo EndedOn])))))"
proof -
  note h = run_reaches_handlers [OF rep body]
  let ?cp = "writer_checkpoint s"
  obtain rc sc where c: "call_observer ev ?cp s1 = (rc, sc)"
    by (cases "call_observer ev ?cp s1")
  have tc: "trace sc = trace s1 @ [Called ?cp (steps s1)]" and stc: "steps sc = steps s1"
    using call_observer_effect [of ev ?cp s1] c by simp_all
  have fc: "initial_steps sc = steps s" "particles sc = particles s"
    using only_effects_fields(1,2) [OF only_effects_call_observer [of s1 ev ?cp]] c h by simp_all
  show ?thesis
  proof (cases rc)
    case (Some e)
    have "run_except ev (SimulationEnd m) s1 = (Some e, log_info Goodbye sc)"
      using c Some h(3) by (simp add: run_except_def on_SimulationEnd_def)
    then have r: "run fuel ev tgt s = Some (Some e, log_info Goodbye sc)" using h(1) by simp
    show ?thesis
      by (rule exI [of _ "Some e"], rule exI [of _ "log_info Goodbye sc"])
         (use r h(2) tc c Some in \<open>simp add: log_info_def\<close>)
  next
    case None
    let ?sl = "log_info (EndMessage m) sc"
    have sl: "trace ?sl = trace s1 @ [Called ?cp (steps s1), LogInfo (EndMessage m)]"
      "steps ?sl = steps s1" "initial_steps ?sl = steps s" "particles ?sl = particles s"
      using tc stc fc by (simp_all add: log_info_def)
    show ?thesis
    proof (cases "steps s1 = steps s")
      case True
      have "run_except ev (SimulationEnd m) s1 = (None, log_info Goodbye ?sl)"
        using c None h(3) True sl(2,3) by (simp add: run_except_def on_SimulationEnd_def Let_def)
      then have r: "run fuel ev tgt s = Some (None, log_info Goodbye ?sl)" using h(1) by simp
      show ?thesis
        by (rule exI [of _ None], rule exI [of _ "log_info Goodbye ?sl"])
           (use r h(2) tc True in \<open>simp add: log_info_def\<close>)
    next
      case False
      then have ne: "initial_steps ?sl \<noteq> steps ?sl" using sl(2,3) by simp
      from report_end_effect [OF ne, of ev] obtain t lines where
        tr: "trace (snd (report_end ev ?sl))
              = trace ?sl @ [LogInfo (FinalRmsd (rmsd ev (steps ?sl))), LogInfo (WallTime t)] @ lines"
        and out: "(case particles ?sl of
          None \<Rightarrow> fst (report_end ev ?sl) = Some AttributeError \<and> lines = []
        | Some n \<Rightarrow>
            if n = 0 then fst (report_end ev ?sl) = Some ZeroDivisionError \<and> lines = []
            else fst (report_end ev ?sl) = None \<and> (\<exists>w. lines = [LogInfo (TSP w), LogInfo EndedOn]))"
        by blast
      obtain re se where re: "report_end ev ?sl = (re, se)" by (cases "report_end ev ?sl")
      have "run_except ev (SimulationEnd m) s1 = (re, log_info Goodbye se)"
        using c None h(3) ne re by (simp add: run_except_def on_SimulationEnd_def Let_def)
      then have r: "run fuel ev tgt s = Some (re, log_info Goodbye se)" using h(1) by simp
      have tse: "trace (log_info Goodbye se)
          = trace s1 @ [Called ?cp (steps s1), LogInfo (EndMessage m),
                        LogInfo (FinalRmsd (rmsd ev (steps s1))), LogInfo (WallTime t)]
            @ lines @ [LogInfo Goodbye]"
        using tr re sl(1,2) by (simp add: log_info_def)
      have out': "(case particles s of
                      None \<Rightarrow> re = Some AttributeError \<and> lines = []
                    | Some n \<Rightarrow>
                        if n = 0 then re = Some ZeroDivisionError \<and> lines = []
                        else re = None \<and> (\<exists>w. lines = [LogInfo (TSP w), LogInfo EndedOn]))"
        using out re sl(4) by (auto split: option.splits if_splits)
      have nse: "\<forall>m'. re \<noteq> Some (SimulationEnd m')"
        using out' by (auto split: option.splits if_splits)
      have tk: "take (Suc (length (trace s1))) (trace (log_info Goodbye se))
          = trace s1 @ [Called ?cp (steps s1)]"
        unfolding tse by simp
      have A: "steps s1 = steps s \<longrightarrow>
              re = None
            \<and> trace (log_info Goodbye se) = trace s1 @ [Called (writer_checkpoint s) (steps s1),
                                      LogInfo (EndMessage m), LogInfo Goodbye]"
        using False by simp
      have B: "steps s1 \<noteq> steps s \<longrightarrow>
              (\<exists>t lines.
                  trace (log_info Goodbye se) = trace s1 @ [Called (writer_checkpoint s) (steps s1),
                                         LogInfo (EndMessage m),
                                         LogInfo (FinalRmsd (rmsd ev (steps s1))),
                                         LogInfo (WallTime t)] @ lines @ [LogInfo Goodbye]
                \<and> (case particles s of
                      None \<Rightarrow> re = Some AttributeError \<and> lines = []
                    | Some n \<Rightarrow>
                        if n = 0 then re = Some ZeroDivisionError \<and> lines = []
                        else re = None \<and> (\<exists>w. lines = [LogInfo (TSP w), LogInfo EndedOn])))"
        by (rule impI, rule exI [of _ t], rule exI [of _ lines], rule conjI [OF tse out'])
      show ?thesis
        apply (rule exI [of _ re], rule exI [of _ "log_info Goodbye se"])
        apply (intro conjI)
           apply (rule r)
          apply (rule h(2))
         apply (rule tk)
        apply (rule impI)
        apply (intro conjI)
          apply (rule nse)
         apply (rule A)
        apply (rule B)
        done
    qed
  qed
qed

lemma main_loop_mono:
  "main_loop n ev s = Some r \<Longrightarrow> main_loop (n + k) ev s = Some r"
proof (induction n arbitrary: s)
  case 0
  then show ?case by simp
next
  case (Suc n)
  obtain e s1 where l: "loop_iteration ev s = (e, s1)" by (cases "loop_iteration ev s")
  show ?case
  proof (cases e)
    case None
    then have "main_loop n ev s1 = Some r" using Suc.prems l by simp
    from Suc.IH [OF this] show ?thesis using l None by simp
  next
    case (Some x)
    then show ?thesis using Suc.prems l by simp
  qed
qed

lemma run_try_mono:
  "run_try n ev s = Some r \<Longrightarrow> run_try (n + k) ev s = Some r"
  unfolding run_try_def
  by (auto split: prod.splits option.splits if_splits intro: main_loop_mono)

lemma run_mono:
  assumes "run n ev tgt s = Some r"
  shows "run (n + k) ev tgt s = Some r"
proof -
  obtain e s0 where rep: "report (run_begin tgt s) = (e, s0)"
    by (cases "report (run_begin tgt s)")
  show ?thesis
  proof (cases e)
    case (Some x)
    have "run n ev tgt s = Some (Some x, s0)" "run (n + k) ev tgt s = Some (Some x, s0)"
      using rep Some by (simp_all add: run_def)
    then show ?thesis using assms by simp
  next
    case None
    then obtain b where b: "run_try n ev s0 = Some b"
      using assms rep by (auto simp: run_def run_protected_def split: option.splits)
    from run_try_mono [OF b, of k] have "run_try (n + k) ev s0 = Some b" .
    then show ?thesis using assms rep None b by (simp add: run_def run_protected_def)
  qed
qed

lemma then_run_mono:
  "then_run n ev tgt r0 = Some r \<Longrightarrow> then_run (n + k) ev tgt r0 = Some r"
  unfolding then_run_def
  by (auto split: option.splits prod.splits intro: run_mono)

lemma notify_append:
  "notify ev (xs @ ys) s =
     (case notify ev xs s of (Some e, s1) \<Rightarrow> (Some e, s1) | (None, s1) \<Rightarrow> notify ev ys s1)"
  by (induction xs arbitrary: s) (auto split: prod.splits option.splits)

theorem run_SimulationEnd_witness:
  "\<exists>s0 s1 s2 t w.
      report (run_begin None sim50_particles) = (None, s0)
    \<and> run_try 12 (base_env clock) s0 = Some (SimulationEnd (AchievedTarget ''steps'' 50), s1)
    \<and> steps s1 = 50
    \<and> run 12 (base_env clock) None sim50_particles = Some (None, s2)
    \<and> trace s2 = trace s1 @ [Called (Observer 2 WriterCheckpoint) 50,
                               LogInfo (EndMessage (AchievedTarget ''steps'' 50)),
                               LogInfo (FinalRmsd 0), LogInfo (WallTime t),
                               LogInfo (TSP w), LogInfo EndedOn, LogInfo Goodbye]"
proof -
  let ?X = sim50_particles and ?ev = "base_env clock"
  have "fst (report (run_begin None ?X)) = None" by code_simp
  then obtain s0 where rep: "report (run_begin None ?X) = (None, s0)"
    by (cases "report (run_begin None ?X)") simp
  have "map_option fst (run_try 12 ?ev (snd (report (run_begin None ?X))))
      = Some (SimulationEnd (AchievedTarget ''steps'' 50))" by code_simp
  then obtain s1 where body: "run_try 12 ?ev s0 = Some (SimulationEnd (AchievedTarget ''steps'' 50), s1)"
    using rep by auto
  have "map_option (steps \<circ> snd) (run_try 12 ?ev (snd (report (run_begin None ?X)))) = Some 50"
    by code_simp
  then have st: "steps s1 = 50" using rep body by simp
  have X: "writer_checkpoint ?X = Observer 2 WriterCheckpoint" "steps ?X = 0"
    "particles ?X = Some 10"
    by (simp_all add: sim50_particles_def sim50_def)
  have cp: "fst (call_observer ?ev (writer_checkpoint ?X) s1) = None"
    by (simp add: X call_observer_def)
  from run_SimulationEnd [OF rep body] obtain r s2 where
    r: "run 12 ?ev None ?X = Some (r, s2)" and
    c: "fst (call_observer ?ev (writer_checkpoint ?X) s1) = None \<longrightarrow>
          (\<forall>m'. r \<noteq> Some (SimulationEnd m'))
        \<and> (steps s1 = steps ?X \<longrightarrow>
              r = None
            \<and> trace s2 = trace s1 @ [Called (writer_checkpoint ?X) (steps s1),
                                      LogInfo (EndMessage (AchievedTarget ''steps'' 50)), LogInfo Goodbye])
        \<and> (steps s1 \<noteq> steps ?X \<longrightarrow>
              (\<exists>t lines.
                  trace s2 = trace s1 @ [Called (writer_checkpoint ?X) (steps s1),
                                         LogInfo (EndMessage (AchievedTarget ''steps'' 50)),
                                         LogInfo (FinalRmsd (rmsd ?ev (steps s1))),
                                         LogInfo (WallTime t)] @ lines @ [LogInfo Goodbye]
                \<and> (case particles ?X of
                      None \<Rightarrow> r = Some AttributeError \<and> lines = []
                    | Some n \<Rightarrow>
                        if n = 0 then r = Some ZeroDivisionError \<and> lines = []
                        else r = None \<and> (\<exists>w. lines = [LogInfo (TSP w), LogInfo EndedOn]))))"
    by (elim exE conjE)
  have ne: "steps s1 \<noteq> steps ?X" using st X by simp
  note c3 = c [THEN mp, OF cp, THEN conjunct2, THEN conjunct2, THEN mp, OF ne]
  from c3 obtain t lines where
    t: "trace s2 = trace s1 @ [Called (writer_checkpoint ?X) (steps s1),
                                         LogInfo (EndMessage (AchievedTarget ''steps'' 50)),
                                         LogInfo (FinalRmsd (rmsd ?ev (steps s1))),
                                         LogInfo (WallTime t)] @ lines @ [LogInfo Goodbye]"
    and l: "(case particles ?X of
                      None \<Rightarrow> r = Some AttributeError \<and> lines = []
                    | Some n \<Rightarrow>
                        if n = 0 then r = Some ZeroDivisionError \<and> lines = []
                        else r = None \<and> (\<exists>w. lines = [LogInfo (TSP w), LogInfo EndedOn]))"
    by (elim conjE exE)
  from l X(3) obtain w where rn: "r = None" and lw: "lines = [LogInfo (TSP w), LogInfo EndedOn]"
    by auto
  have tr: "trace s2 = trace s1 @ [Called (Observer 2 WriterCheckpoint) 50,
                               LogInfo (EndMessage (AchievedTarget ''steps'' 50)),
                               LogInfo (FinalRmsd 0), LogInfo (WallTime t),
                               LogInfo (TSP w), LogInfo EndedOn, LogInfo Goodbye]"
    using t lw X(1) st by (simp add: base_env_def)
  from rep body st r rn tr show ?thesis by blast
qed

text \<open>
  Claim C8, as amended.  A KeyboardInterrupt that reaches the handlers of \<^verbatim>\<open>run\<close> (raised
  by an observer or by \<^verbatim>\<open>run_until\<close> inside the \<^verbatim>\<open>try\<close> statement) is not raised again:
  \<^verbatim>\<open>run\<close> returns.  Its handler is \<^verbatim>\<open>pass\<close>: the checkpoint writer is not called, nothing is
  reported, and the only effect after the interrupt is the closing line.
\<close>

theorem run_KeyboardInterrupt:
  assumes "report (run_begin tgt s) = (None, s0)"
    and "run_try fuel ev s0 = Some (KeyboardInterrupt, s1)"
  shows "run fuel ev tgt s = Some (None, s1\<lparr>trace := trace s1 @ [LogInfo Goodbye]\<rparr>)"
  using assms by (simp add: run_def run_protected_def run_except_def log_info_def)

text \<open>
  In a subclass with a system of ten particles, the operator interrupts \<^verbatim>\<open>run_until(5)\<close>:
  the theorem applies.
\<close>

theorem run_KeyboardInterrupt_witness:
  "\<exists>s0 s1. report (run_begin None sim50_particles) = (None, s0)
     \<and> run_try 12 interrupted_env s0 = Some (KeyboardInterrupt, s1)
     \<and> steps s1 = 1
     \<and> run 12 interrupted_env None sim50_particles
         = Some (None, s1\<lparr>trace := trace s1 @ [LogInfo Goodbye]\<rparr>)"
proof -
  have "fst (report (run_begin None sim50_particles)) = None" by code_simp
  then obtain s0 where rep: "report (run_begin None sim50_particles) = (None, s0)"
    by (cases "report (run_begin None sim50_particles)") simp
  have "map_option fst (run_try 12 interrupted_env (snd (report (run_begin None sim50_particles))))
      = Some KeyboardInterrupt" by code_simp
  then obtain s1 where body: "run_try 12 interrupted_env s0 = Some (KeyboardInterrupt, s1)"
    using rep by auto
  have "map_option (steps \<circ> snd)
          (run_try 12 interrupted_env (snd (report (run_begin None sim50_particles)))) = Some 1"
    by code_simp
  then have st: "steps s1 = 1" using rep body by simp
  from run_KeyboardInterrupt [OF rep body] rep body st show ?thesis by blast
qed

text \<open>
  The same run, in full: the interrupt arrives when one step has been taken; the checkpoint
  writer was called by the initial notification at step 0 and is not called again.
\<close>

theorem KeyboardInterrupt_no_checkpoint:
  "map_option fst (run 12 interrupted_env None sim50_particles) = Some None
   \<and> map_option (steps \<circ> snd) (run 12 interrupted_env None sim50_particles) = Some 1
   \<and> map_option (drop 11 \<circ> trace \<circ> snd) (run 12 interrupted_env None sim50_particles)
       = Some [Called (Observer 3 (TargetSteps 50)) 0,
               Called (Observer 1 WriterConfig) 0, Called (Observer 0 WriterThermo) 0,
               Called (Observer 6 (Speedometer (Some ''ETA''))) 0,
               Called (Observer 5 (Speedometer None)) 0,
               Called (Observer 2 WriterCheckpoint) 0,
               LogInfo (StartingAt 0), LogInfo Blank,
               RunUntil 1, Called (Observer 6 (Speedometer (Some ''ETA''))) 1,
               RunUntil 5, LogInfo Goodbye]"
  by code_simp

text \<open>
  In the base class, which has no system, the speedometer called at step 1 raises
  AttributeError in \<^verbatim>\<open>wall_time_per_step_particle\<close>: the run fails there.
\<close>

lemma base_class_run_fails_in_speedometer:
  "map_option fst (run 12 (base_env clock) None sim50) = Some (Some AttributeError)
   \<and> map_option (steps \<circ> snd) (run 12 (base_env clock) None sim50) = Some 1
   \<and> map_option (drop 19 \<circ> trace \<circ> snd) (run 12 (base_env clock) None sim50)
       = Some [RunUntil 1, Called (Observer 6 (Speedometer (Some ''ETA''))) 1,
               LogError SimulationFailed, LogInfo Goodbye]"
  by code_simp

lemma report_observers_TargetWallTime:
  "(Observer n (TargetWallTime w), sch) \<in> set regs \<Longrightarrow>
   fst (report_observers regs s) = Some AttributeError"
proof (induction regs arbitrary: s)
  case Nil
  then show ?case by simp
next
  case (Cons r regs)
  obtain f sc where r: "r = (f, sc)" by (cases r)
  show ?case
  proof (cases "isinstance_Target f")
    case False
    then have "(Observer n (TargetWallTime w), sch) \<in> set regs"
      using Cons.prems r by auto
    from Cons.IH [OF this] show ?thesis using r False by simp
  next
    case True
    show ?thesis
    proof (cases "target_attr f")
      case (Inl e)
      then have "e = AttributeError" by (cases f rule: target_attr.cases) simp_all
      then show ?thesis using r True Inl by simp
    next
      case (Inr t)
      then have "f \<noteq> Observer n (TargetWallTime w)" by auto
      then have "(Observer n (TargetWallTime w), sch) \<in> set regs"
        using Cons.prems r by auto
      from Cons.IH [OF this] show ?thesis using r True Inr by simp
    qed
  qed
qed

lemma report_observers_logs:
  "\<exists>ls. trace (snd (report_observers regs s)) = trace s @ map LogInfo ls"
proof (induction regs arbitrary: s)
  case Nil
  show ?case by (rule exI [of _ "[]"]) simp
next
  case (Cons r regs)
  obtain f sc where r: "r = (f, sc)" by (cases r)
  have step: "\<exists>ls. trace (snd (report_observers regs (log_info l s))) = trace s @ map LogInfo ls" for l
  proof -
    from Cons.IH [of "log_info l s"] obtain ls where
      "trace (snd (report_observers regs (log_info l s))) = trace (log_info l s) @ map LogInfo ls"
      by blast
    then have "trace (snd (report_observers regs (log_info l s))) = trace s @ map LogInfo (l # ls)"
      by (simp add: log_info_def)
    then show ?thesis by blast
  qed
  have here: "\<exists>ls. trace s = trace s @ map LogInfo ls" by (rule exI [of _ "[]"]) simp
  show ?case
    unfolding r using step here by (auto split: sum.splits)
qed

text \<open>
  With a wall-time Target in the ledger, \<^verbatim>\<open>run\<close> leaves in \<^verbatim>\<open>report\<close>, before the \<^verbatim>\<open>try\<close>
  statement: no observer is called and no step is taken.
\<close>

lemma run_with_TargetWallTime:
  assumes "(Observer n (TargetWallTime w), sch) \<in> set (zip (callback s) (scheduler s))"
  shows "\<exists>s'. run fuel ev tgt s = Some (Some AttributeError, s')
     \<and> steps s' = steps s
     \<and> (\<forall>e \<in> set (drop (length (trace s)) (trace s')). e = RunPre \<or> (\<exists>l. e = LogInfo l))"
proof -
  let ?b = "run_begin tgt s"
  let ?h = "log_info Version (log_info Blank (log_info Title (log_info Blank ?b)))"
  have z: "zip (callback ?b) (scheduler ?b) = zip (callback s) (scheduler s)"
    by (simp add: run_begin_fields)
  have f: "fst (report ?b) = Some AttributeError"
    unfolding report_def z using report_observers_TargetWallTime [OF assms] .
  then have r: "run fuel ev tgt s = Some (Some AttributeError, snd (report ?b))"
    by (cases "report ?b") (simp add: run_def)
  have st: "steps (snd (report ?b)) = steps s"
    using only_effects_report [of ?b] run_begin_fields(2) [of tgt s] by simp
  obtain pre where pre: "trace ?b = trace s @ pre" "\<forall>e \<in> set pre. e = RunPre \<or> (\<exists>l. e = LogInfo l)"
    by (cases tgt) (simp_all add: run_begin_def Let_def log_info_def)
  from report_observers_logs [of "zip (callback ?b) (scheduler ?b)" ?h] obtain ls where
    "trace (snd (report ?b)) = trace ?h @ map LogInfo ls" unfolding report_def by blast
  then have "trace (snd (report ?b))
      = trace s @ (pre @ [LogInfo Blank, LogInfo Title, LogInfo Blank, LogInfo Version] @ map LogInfo ls)"
    using pre(1) by (simp add: log_info_def)
  then have "\<forall>e \<in> set (drop (length (trace s)) (trace (snd (report ?b)))).
      e = RunPre \<or> (\<exists>l. e = LogInfo l)"
    using pre(2) by auto
  with r st show ?thesis by blast
qed


text \<open>
  Claim C5.  \<^verbatim>\<open>Simulation(state, steps=50)\<close> in a subclass with a system of ten particles,
  then \<^verbatim>\<open>add(TargetWallTime(0), Scheduler(1))\<close> and \<^verbatim>\<open>run()\<close>.  \<^verbatim>\<open>TargetWallTime.__init__\<close>
  sets neither \<^verbatim>\<open>name\<close> nor \<^verbatim>\<open>target\<close>, so the line that \<^verbatim>\<open>report\<close> writes for this Target
  raises AttributeError, before the \<^verbatim>\<open>try\<close> statement: whatever the number of passes
  allowed, the exception leaves \<^verbatim>\<open>run\<close>, the step counter stays at 0, and no observer is
  called, neither the wall-time Target nor the checkpoint writer.
\<close>

theorem run_wall_time_limit_zero:
  "add (Observer 7 (TargetWallTime 0)) (Scheduler (Some 1) None None) sim50_particles
     = Inr sim50_wall0
   \<and> map_option fst (run fuel (base_env clock) None sim50_wall0) = Some (Some AttributeError)
   \<and> map_option (steps \<circ> snd) (run fuel (base_env clock) None sim50_wall0) = Some 0
   \<and> map_option (trace \<circ> snd) (run fuel (base_env clock) None sim50_wall0)
       = Some [RunPre, LogInfo Blank, LogInfo Title, LogInfo Blank, LogInfo Version,
               LogInfo (WriterLine (Observer 1 WriterConfig) (Scheduler (Some 0) (Some 0) (Some 50))),
               LogInfo (WriterLine (Observer 0 WriterThermo) (Scheduler (Some 0) (Some 0) (Some 50))),
               LogInfo (WriterLine (Observer 6 (Speedometer (Some ''ETA''))) (OnetimeScheduler 1)),
               LogInfo (WriterLine (Observer 5 (Speedometer None))
                          (Scheduler (Some 5) (Some 10) (Some 50))),
               LogInfo (WriterLine (Observer 2 WriterCheckpoint)
                          (Scheduler (Some 0) (Some 0) (Some 50))),
               LogInfo (TargetLine (Observer 3 (TargetSteps 50)) 50)]"
proof -
  let ?r = "report (run_begin None sim50_wall0)"
  have a: "add (Observer 7 (TargetWallTime 0)) (Scheduler (Some 1) None None) sim50_particles
     = Inr sim50_wall0" by code_simp
  have f: "fst ?r = Some AttributeError" by code_simp
  then have r: "run fuel (base_env clock) None sim50_wall0 = Some (Some AttributeError, snd ?r)"
    by (cases ?r) (simp add: run_def)
  have st: "steps (snd ?r) = 0" by code_simp
  have tr: "trace (snd ?r)
       = [RunPre, LogInfo Blank, LogInfo Title, LogInfo Blank, LogInfo Version,
               LogInfo (WriterLine (Observer 1 WriterConfig) (Scheduler (Some 0) (Some 0) (Some 50))),
               LogInfo (WriterLine (Observer 0 WriterThermo) (Scheduler (Some 0) (Some 0) (Some 50))),
               LogInfo (WriterLine (Observer 6 (Speedometer (Some ''ETA''))) (OnetimeScheduler 1)),
               LogInfo (WriterLine (Observer 5 (Speedometer None))
                          (Scheduler (Some 5) (Some 10) (Some 50))),
               LogInfo (WriterLine (Observer 2 WriterCheckpoint)
                          (Scheduler (Some 0) (Some 0) (Some 50))),
               LogInfo (TargetLine (Observer 3 (TargetSteps 50)) 50)]" by code_simp
  show ?thesis unfolding r using a st tr by simp
qed

text \<open>
  Were the report passed, the handlers would not treat the limit as an end of the
  simulation either: \<^verbatim>\<open>WallTimeLimit\<close> is not a \<^verbatim>\<open>SimulationEnd\<close>, so the last \<^verbatim>\<open>except\<close>
  clause logs the failure and raises it again, with no call of the checkpoint writer.
\<close>

lemma run_except_WallTimeLimit:
  "run_except ev WallTimeLimit s
     = (Some WallTimeLimit, s\<lparr>trace := trace s @ [LogError SimulationFailed, LogInfo Goodbye]\<rparr>)"
  by (simp add: run_except_def log_error_def log_info_def)

text \<open>
  In a pass of the loop that completes, an observer is called exactly when the scheduler it
  was registered with answers the minimum \<open>next_step\<close>: no class of observers is exempt.
\<close>

lemma observer_called_iff_due:
  assumes ns: "all_steps (scheduler s) (steps s) = Inr ns"
    and ne: "scheduler s \<noteq> []"
    and len: "length (callback s) = length (scheduler s)"
    and ok: "fst (loop_iteration ev s) = None"
  shows "Called ob (Min (set ns))
           \<in> set (drop (length (trace s)) (trace (snd (loop_iteration ev s))))
     \<longleftrightarrow> (\<exists>i < length (callback s). callback s ! i = ob
            \<and> Scheduler_next (scheduler s ! i) (steps s) = Inr (Min (set ns)))"
proof -
  let ?m = "Min (set ns)"
  let ?due = "map fst (filter (\<lambda>r. snd r = ?m) (zip (callback s) ns))"
  note e = loop_iteration_effect [OF ns ne len refl refl, of ev]
  from e have l: "length ns = length (scheduler s)" by (rule conjunct1)
  from e have nth: "\<forall>i < length (scheduler s).
      Scheduler_next (scheduler s ! i) (steps s) = Inr (ns ! i) \<and> ?m \<le> ns ! i"
    by (rule conjunct2 [THEN conjunct1])
  from e have it: "loop_iteration ev s =
         (case run_until ev ?m s of
            (Some e, s1) \<Rightarrow> (Some e, s1)
          | (None, s1) \<Rightarrow> notify ev ?due (s1\<lparr>steps := ?m\<rparr>))"
    by (rule conjunct2 [THEN conjunct2, THEN conjunct1])
  have ru: "fst (run_until ev ?m s) = None"
    using ok it by (cases "run_until ev ?m s") (auto split: option.splits)
  from e [THEN conjunct2, THEN conjunct2, THEN conjunct2, THEN mp, OF ru]
  obtain k where k: "trace (snd (loop_iteration ev s))
                = trace s @ RunUntil ?m # map (\<lambda>ob. Called ob ?m) (take k ?due)"
    and kl: "fst (loop_iteration ev s) = None \<longrightarrow> k = length ?due"
    by (elim exE conjE)
  have tr: "drop (length (trace s)) (trace (snd (loop_iteration ev s)))
      = RunUntil ?m # map (\<lambda>ob. Called ob ?m) ?due"
    using k kl ok by simp
  have "Called ob ?m \<in> set (drop (length (trace s)) (trace (snd (loop_iteration ev s))))
      \<longleftrightarrow> ob \<in> set ?due"
    unfolding tr by auto
  also have "\<dots> \<longleftrightarrow> (\<exists>i < length (callback s). callback s ! i = ob \<and> ns ! i = ?m)"
    using l len by (auto simp: in_set_zip image_iff)
  also have "\<dots> \<longleftrightarrow> (\<exists>i < length (callback s). callback s ! i = ob
            \<and> Scheduler_next (scheduler s ! i) (steps s) = Inr ?m)"
    using nth len by auto
  finally show ?thesis .
qed


text \<open>
  Claim C6.  \<^verbatim>\<open>Simulation(state, steps=50)\<close>, in a subclass with a system of ten particles:
  \<^verbatim>\<open>run(50)\<close> reaches step 50 and returns.  \<^verbatim>\<open>run(150)\<close> then starts from step 50, sets the
  restart flag and the new number of steps, and does not notify the writers; but the step
  Target still holds 50, so it raises in the first notification of the Targets, whatever
  the number of passes allowed: the run ends at step 50, with the forced checkpoint, and no
  \<^verbatim>\<open>run_until\<close> is ever called.
\<close>

theorem second_run_ends_at_first_target:
  "map_option fst (run 12 (base_env clock) (Some 50) sim50_particles) = Some None
   \<and> map_option (steps \<circ> snd) (run 12 (base_env clock) (Some 50) sim50_particles) = Some 50
   \<and> map_option fst
       (then_run fuel (base_env clock) (Some 150)
          (run 12 (base_env clock) (Some 50) sim50_particles)) = Some None
   \<and> map_option (steps \<circ> snd)
       (then_run fuel (base_env clock) (Some 150)
          (run 12 (base_env clock) (Some 50) sim50_particles)) = Some 50
   \<and> map_option (initial_steps \<circ> snd)
       (then_run fuel (base_env clock) (Some 150)
          (run 12 (base_env clock) (Some 50) sim50_particles)) = Some 50
   \<and> map_option (restart \<circ> snd)
       (then_run fuel (base_env clock) (Some 150)
          (run 12 (base_env clock) (Some 50) sim50_particles)) = Some True
   \<and> map_option (target_steps \<circ> snd)
       (then_run fuel (base_env clock) (Some 150)
          (run 12 (base_env clock) (Some 50) sim50_particles)) = Some 150
   \<and> map_option (drop 62 \<circ> trace \<circ> snd)
       (then_run fuel (base_env clock) (Some 150)
          (run 12 (base_env clock) (Some 50) sim50_particles))
       = Some [Called (Observer 3 (TargetSteps 50)) 50,
               Called (Observer 2 WriterCheckpoint) 50,
               LogInfo (EndMessage (AchievedTarget ''steps'' 50)),
               LogInfo Goodbye]"
proof -
  let ?r1 = "run 12 (base_env clock) (Some 50) sim50_particles"
  let ?r2 = "then_run 0 (base_env clock) (Some 150) ?r1"
  have a: "map_option fst ?r1 = Some None" by code_simp
  have b: "map_option (steps \<circ> snd) ?r1 = Some 50" by code_simp
  have c: "map_option fst ?r2 = Some None" by code_simp
  then obtain R where R: "?r2 = Some R" by auto
  from then_run_mono [OF R, of fuel]
  have m: "then_run fuel (base_env clock) (Some 150) ?r1 = ?r2" using R by simp
  have d: "map_option (steps \<circ> snd) ?r2 = Some 50" by code_simp
  have e: "map_option (initial_steps \<circ> snd) ?r2 = Some 50" by code_simp
  have f: "map_option (restart \<circ> snd) ?r2 = Some True" by code_simp
  have g: "map_option (target_steps \<circ> snd) ?r2 = Some 150" by code_simp
  have h: "map_option (drop 62 \<circ> trace \<circ> snd) ?r2
       = Some [Called (Observer 3 (TargetSteps 50)) 50,
               Called (Observer 2 WriterCheckpoint) 50,
               LogInfo (EndMessage (AchievedTarget ''steps'' 50)),
               LogInfo Goodbye]" by code_simp
  show ?thesis unfolding m using a b c d e f g h by (intro conjI)
qed

section \<open>The registrations of the constructor\<close>

lemma Scheduler_init_writer:
  "Scheduler_init (Some i) (Some n) (Some ts) = Inr (writer_scheduler i n ts)"
  by (simp add: Scheduler_init_def writer_scheduler_def)

lemma add_all_append:
  "add_all (xs @ ys) s = (case add_all xs s of Inl e \<Rightarrow> Inl e | Inr s1 \<Rightarrow> add_all ys s1)"
  by (induction xs arbitrary: s) (auto split: sum.splits)

lemma then_add_add_all:
  "then_add cb (Inr sch) (add_all regs s) = add_all (regs @ [(cb, sch)]) s"
  by (simp add: then_add_def add_all_append split: sum.splits)

lemma Simulation_init_add_all:
  "Simulation_init ev cfg = add_all (init_registrations cfg) (Simulation_attributes ev cfg)"
proof -
  let ?s0 = "Simulation_attributes ev cfg" and ?ts = "cfg_steps cfg"
  have w: "writer_thermo ?s0 = Observer 0 WriterThermo" "writer_config ?s0 = Observer 1 WriterConfig"
    "writer_checkpoint ?s0 = Observer 2 WriterCheckpoint"
    by (simp_all add: Simulation_attributes_def)
  have s1: "Scheduler_init (Some (max 1 ?ts)) None None = Inr (Scheduler (Some (max 1 ?ts)) None None)"
    "Scheduler_init (Some 10000) None None = Inr (Scheduler (Some 10000) None None)"
    "Scheduler_init None (Some 10) (Some ?ts)
       = Inr (Scheduler (Some (max 1 (?ts div 10))) (Some 10) (Some ?ts))"
    by (simp_all add: Scheduler_init_def)
  have e: "Inr ?s0 = add_all [] ?s0" by simp
  show ?thesis
    unfolding Simulation_init_def Let_def w s1 Scheduler_init_writer e
    by (cases "cfg_rmsd cfg") (simp_all only: then_add_add_all init_registrations_def option.case append.simps)
qed

lemma default_run_ends_at_zero:
  "(case Simulation_init (base_env clock) default_config of
      Inl e \<Rightarrow> None
    | Inr s \<Rightarrow> map_option (steps \<circ> snd) (run 12 (base_env clock) (Some 50) s)) = Some 0"
  by code_simp

end
